theory Spec2Isabelle
  imports Main
begin

section \<open>Data model\<close>

text \<open>
  The three mapped classes of \<^verbatim>\<open>main.py\<close> and their tables. A row is a record whose
  fields are the columns of the class; the field names carry the class name because the
  three classes share the column name \<^verbatim>\<open>id\<close>. Integers are Python's unbounded ints and
  strings are character lists; characters beyond code point 255 are outside the model. An
  \<^verbatim>\<open>Integer\<close> column of the database holds a signed 64-bit value.
\<close>

record User =
  User_id :: int
  User_name :: string

record Question =
  Question_id :: int
  Question_text :: string

record Answer =
  Answer_id :: int
  Answer_answer_text :: string
  Answer_user_id :: int
  Answer_question_id :: int

text \<open>
  The database file: one list of rows per table, in insertion (rowid) order. A query without
  an ordering is taken to return the rows in that order.
\<close>

record database =
  users :: "User list"
  questions :: "Question list"
  answers :: "Answer list"

text \<open>Exceptions a handler can let escape; the server turns each into a 500 response.\<close>

datatype error =
  ValueError | IndexError | AttributeError | IntegrityError | InvalidRequestError | OverflowError

text \<open>
  What a session did, one entry per ORM operation the code invokes: a query or a relationship
  load (\<open>Select\<close> of the table read), the insert of a flushed object, a bulk delete, a commit.
\<close>

datatype db_op = Select string | Insert string | Delete string | Commit

text \<open>
  Objects built by the constructors \<^verbatim>\<open>User(name=...)\<close>, \<^verbatim>\<open>Question(text=...)\<close> and
  \<^verbatim>\<open>Answer(user_id=..., question_id=..., answer_text=...)\<close>: they have no primary key until
  they are flushed.
\<close>

datatype orm_object =
    New_User string
  | New_Question string
  | New_Answer int int string

text \<open>
  A session: the database as its transaction sees it, the objects added and not yet
  flushed, and the trace of its operations. The session factory is configured with
  \<^verbatim>\<open>autoflush=False\<close>, so pending objects reach the tables at \<^verbatim>\<open>commit\<close> only.
\<close>

record Session =
  engine :: database
  pending :: "orm_object list"
  trace :: "db_op list"

definition SessionLocal :: "database \<Rightarrow> Session" where
  "SessionLocal d = \<lparr>engine = d, pending = [], trace = []\<rparr>"

section \<open>Python built-ins used by the handlers\<close>

definition startswith :: "string \<Rightarrow> string \<Rightarrow> bool" where
  "startswith s p = (take (length p) s = p)"

text \<open>\<^verbatim>\<open>s.split(sep)\<close> for a one-character separator: empty pieces are kept.\<close>

fun str_split :: "string \<Rightarrow> char \<Rightarrow> string list" where
  "str_split [] sep = [[]]"
| "str_split (c # cs) sep =
     (if c = sep then [] # str_split cs sep
      else (case str_split cs sep of
              [] \<Rightarrow> [[c]]
            | w # ws \<Rightarrow> (c # w) # ws))"

text \<open>\<^verbatim>\<open>xs[i]\<close> for a non-negative index: out of range raises \<^verbatim>\<open>IndexError\<close>.\<close>

fun getitem :: "'a list \<Rightarrow> nat \<Rightarrow> error + 'a" where
  "getitem [] i = Inl IndexError"
| "getitem (x # xs) 0 = Inr x"
| "getitem (x # xs) (Suc i) = getitem xs i"

text \<open>
  \<^verbatim>\<open>int(s)\<close> in base ten: surrounding whitespace is dropped, one sign is allowed, and the
  rest is a non-empty run of decimal digits in which single underscores may separate digits.
  Anything else raises \<^verbatim>\<open>ValueError\<close>, and so does a string with more digits than the
  interpreter's limit, which the code leaves at its default of 4300. The whitespace
  characters are the six ASCII ones and, above ASCII, U+0085 and U+00A0.
\<close>

definition is_space :: "char \<Rightarrow> bool" where
  "is_space c = (of_char c \<in> set [9, 10, 11, 12, 13, 32, 133, 160 :: nat])"

definition is_digit :: "char \<Rightarrow> bool" where
  "is_digit c = (48 \<le> (of_char c :: nat) \<and> (of_char c :: nat) \<le> 57)"

definition digit_value :: "char \<Rightarrow> int" where
  "digit_value c = int (of_char c) - 48"

fun parse_digits :: "string \<Rightarrow> int \<Rightarrow> bool \<Rightarrow> int option" where
  "parse_digits [] acc after_digit = (if after_digit then Some acc else None)"
| "parse_digits (c # cs) acc after_digit =
     (if is_digit c then parse_digits cs (10 * acc + digit_value c) True
      else if c = CHR ''_'' \<and> after_digit then parse_digits cs acc False
      else None)"

definition strip :: "string \<Rightarrow> string" where
  "strip s = rev (dropWhile is_space (rev (dropWhile is_space s)))"

definition max_str_digits :: nat where
  "max_str_digits = 4300"

definition parse_number :: "string \<Rightarrow> int option" where
  "parse_number body =
     (if max_str_digits < length (filter is_digit body) then None
      else parse_digits body 0 False)"

definition py_int :: "string \<Rightarrow> error + int" where
  "py_int s =
     (case strip s of
        [] \<Rightarrow> Inl ValueError
      | c # cs \<Rightarrow>
          (if c = CHR ''-'' then
             (case parse_number cs of None \<Rightarrow> Inl ValueError | Some n \<Rightarrow> Inr (- n))
           else if c = CHR ''+'' then
             (case parse_number cs of None \<Rightarrow> Inl ValueError | Some n \<Rightarrow> Inr n)
           else
             (case parse_number (c # cs) of None \<Rightarrow> Inl ValueError | Some n \<Rightarrow> Inr n)))"

section \<open>The ORM operations the code calls\<close>

text \<open>
  The primary keys are plain \<^verbatim>\<open>INTEGER PRIMARY KEY\<close> columns: a new row gets 1 in an empty
  table and one more than the largest key in use otherwise.
\<close>

definition next_id :: "int list \<Rightarrow> int" where
  "next_id ids = (case ids of [] \<Rightarrow> 1 | i # rest \<Rightarrow> fold max rest i + 1)"

text \<open>\<^verbatim>\<open>db.add(obj)\<close>: the object waits in the session.\<close>

definition add :: "orm_object \<Rightarrow> Session \<Rightarrow> Session" where
  "add obj s = s\<lparr>pending := pending s @ [obj]\<rparr>"

text \<open>
  Flushing one object inserts its row. \<^verbatim>\<open>users.name\<close> is declared \<^verbatim>\<open>unique=True\<close>, so a
  second row with a name in use raises \<^verbatim>\<open>IntegrityError\<close>. The foreign keys of
  \<^verbatim>\<open>answers\<close> are declared but the code never switches their enforcement on, so an answer
  is stored whether or not its \<^verbatim>\<open>user_id\<close> and \<^verbatim>\<open>question_id\<close> are keys in use. Its
  \<^verbatim>\<open>question_id\<close> is whatever \<^verbatim>\<open>int\<close> parsed: a value that does not fit the signed
  64-bit \<^verbatim>\<open>Integer\<close> column raises \<^verbatim>\<open>OverflowError\<close> when the row is written. The
  \<^verbatim>\<open>user_id\<close> is a key read from the users table.
\<close>

definition sqlite_integer :: "int \<Rightarrow> bool" where
  "sqlite_integer i = (- (2 ^ 63) \<le> i \<and> i < 2 ^ 63)"

fun flush_object :: "orm_object \<Rightarrow> database \<Rightarrow> error + database" where
  "flush_object (New_User n) d =
     (if n \<in> set (map User_name (users d)) then Inl IntegrityError
      else Inr (d\<lparr>users := users d @
             [\<lparr>User_id = next_id (map User_id (users d)), User_name = n\<rparr>]\<rparr>))"
| "flush_object (New_Question t) d =
     Inr (d\<lparr>questions := questions d @
             [\<lparr>Question_id = next_id (map Question_id (questions d)), Question_text = t\<rparr>]\<rparr>)"
| "flush_object (New_Answer uid qid t) d =
     (if \<not> sqlite_integer qid then Inl OverflowError
      else Inr (d\<lparr>answers := answers d @
             [\<lparr>Answer_id = next_id (map Answer_id (answers d)), Answer_answer_text = t,
               Answer_user_id = uid, Answer_question_id = qid\<rparr>]\<rparr>))"

fun flush :: "orm_object list \<Rightarrow> database \<Rightarrow> error + database" where
  "flush [] d = Inr d"
| "flush (obj # objs) d =
     (case flush_object obj d of
        Inl e \<Rightarrow> Inl e
      | Inr d' \<Rightarrow> flush objs d')"

fun table_of :: "orm_object \<Rightarrow> string" where
  "table_of (New_User n) = ''users''"
| "table_of (New_Question t) = ''questions''"
| "table_of (New_Answer uid qid t) = ''answers''"

text \<open>
  \<^verbatim>\<open>db.commit()\<close>: the pending objects are flushed in the order they were added and the
  transaction is committed. When the flush fails the exception escapes and the transaction
  is rolled back: the database keeps its state and the pending objects are gone.
\<close>

definition commit :: "Session \<Rightarrow> (error + unit) \<times> Session" where
  "commit s =
     (case flush (pending s) (engine s) of
        Inl e \<Rightarrow> (Inl e, s\<lparr>pending := []\<rparr>)
      | Inr d' \<Rightarrow>
          (Inr (), \<lparr>engine = d', pending = [],
                    trace = trace s @ map (\<lambda>obj. Insert (table_of obj)) (pending s) @ [Commit]\<rparr>))"

text \<open>\<^verbatim>\<open>db.query(User).filter_by(name=name).first()\<close>\<close>

definition query_User_filter_by_name_first :: "string \<Rightarrow> Session \<Rightarrow> User option \<times> Session" where
  "query_User_filter_by_name_first n s =
     (find (\<lambda>u. User_name u = n) (users (engine s)), s\<lparr>trace := trace s @ [Select ''users'']\<rparr>)"

text \<open>
  \<^verbatim>\<open>db.refresh(user)\<close> after the commit that inserted the object: its row is read back. The
  model finds the row by the object's name, which the unique constraint makes unambiguous;
  a row that is gone raises \<^verbatim>\<open>InvalidRequestError\<close>.
\<close>

definition refresh_User :: "string \<Rightarrow> Session \<Rightarrow> (error + User) \<times> Session" where
  "refresh_User n s =
     (case find (\<lambda>u. User_name u = n) (users (engine s)) of
        None \<Rightarrow> (Inl InvalidRequestError, s)
      | Some u \<Rightarrow> (Inr u, s\<lparr>trace := trace s @ [Select ''users'']\<rparr>))"

text \<open>\<^verbatim>\<open>db.query(Question).all()\<close> and \<^verbatim>\<open>db.query(User).all()\<close>\<close>

definition query_Question_all :: "Session \<Rightarrow> Question list \<times> Session" where
  "query_Question_all s = (questions (engine s), s\<lparr>trace := trace s @ [Select ''questions'']\<rparr>)"

definition query_User_all :: "Session \<Rightarrow> User list \<times> Session" where
  "query_User_all s = (users (engine s), s\<lparr>trace := trace s @ [Select ''users'']\<rparr>)"

text \<open>\<^verbatim>\<open>db.query(Question).delete()\<close>\<close>

definition query_Question_delete :: "Session \<Rightarrow> Session" where
  "query_Question_delete s =
     s\<lparr>engine := (engine s)\<lparr>questions := []\<rparr>, trace := trace s @ [Delete ''questions'']\<rparr>"

text \<open>
  The relationship \<^verbatim>\<open>user.answers\<close> loads the answers whose \<^verbatim>\<open>user_id\<close> is the user's
  key; the relationship \<^verbatim>\<open>a.question\<close> loads the question whose key is the answer's
  \<^verbatim>\<open>question_id\<close>, and is \<^verbatim>\<open>None\<close> when there is no such row.
\<close>

definition User_answers :: "User \<Rightarrow> Session \<Rightarrow> Answer list \<times> Session" where
  "User_answers u s =
     (filter (\<lambda>a. Answer_user_id a = User_id u) (answers (engine s)),
      s\<lparr>trace := trace s @ [Select ''answers'']\<rparr>)"

definition Answer_question :: "Answer \<Rightarrow> Session \<Rightarrow> Question option \<times> Session" where
  "Answer_question a s =
     (find (\<lambda>q. Question_id q = Answer_question_id a) (questions (engine s)),
      s\<lparr>trace := trace s @ [Select ''questions'']\<rparr>)"

section \<open>Requests and responses\<close>

text \<open>
  The form of a request as the handler sees it: the key and value pairs that
  \<^verbatim>\<open>form.items()\<close> iterates, in order and one pair per key, and \<^verbatim>\<open>form.get(key)\<close>
  on them. Values are text fields.
\<close>

type_synonym form = "(string \<times> string) list"

definition form_get :: "form \<Rightarrow> string \<Rightarrow> string option" where
  "form_get form key = map_of form key"

text \<open>
  The values a handler hands to a template, and the two kinds of response. One entry of
  the results list is the pair of a user's name and that user's list of question text and
  answer text pairs. The request object that every context also carries is left out.
\<close>

type_synonym result_entry = "string \<times> (string \<times> string) list"

datatype context_value =
    Str string
  | Questions "Question list"
  | Results "result_entry list"

datatype response =
    TemplateResponse string "(string \<times> context_value) list"
  | RedirectResponse string nat
  | JSONResponse nat

text \<open>
  A template response is built without a status code, which leaves the default, 200. A
  JSON response is what the framework itself sends, with the status it chooses; its body is
  left out.
\<close>

fun status_code :: "response \<Rightarrow> nat" where
  "status_code (TemplateResponse name context) = 200"
| "status_code (RedirectResponse url code) = code"
| "status_code (JSONResponse code) = code"

section \<open>The seed routine\<close>

definition new_questions :: "string list" where
  "new_questions =
     [''What is your email address?'',
      ''What is your cell-phone number?'',
      ''What is your date of birth?'',
      ''What is your occupation?'',
      ''Who is your employer?'',
      ''How many years of investment experience do you have?'',
      ''What are your investment objectives? (e.g. Growth, Income, etc.)'',
      ''What is your Net Worth?'',
      ''Do you have any time limitation on your investment goals?'',
      ''Are you interested in life-insurance as well?'']"

definition preload_questions :: "Session \<Rightarrow> (error + unit) \<times> Session" where
  "preload_questions s =
     (case commit (query_Question_delete s) of
        (Inl e, s1) \<Rightarrow> (Inl e, s1)
      | (Inr _, s1) \<Rightarrow> commit (fold (\<lambda>q. add (New_Question q)) new_questions s1))"

section \<open>The handlers\<close>

definition read_root :: "error + response" where
  "read_root = Inr (TemplateResponse ''index.html'' [])"

text \<open>
  The block that \<^verbatim>\<open>get_questions\<close> (lines 86 to 91) and \<^verbatim>\<open>submit_answers\<close> (lines 103
  to 108) both contain, word for word: look the user up by name and, when there is none,
  add one, commit and refresh.
\<close>

definition find_or_create_User :: "string \<Rightarrow> Session \<Rightarrow> (error + User) \<times> Session" where
  "find_or_create_User name s =
     (case query_User_filter_by_name_first name s of (found, s1) \<Rightarrow>
        (case found of
           Some u \<Rightarrow> (Inr u, s1)
         | None \<Rightarrow>
             (case commit (add (New_User name) s1) of
                (Inl e, s2) \<Rightarrow> (Inl e, s2)
              | (Inr _, s2) \<Rightarrow> refresh_User name s2)))"

definition get_questions :: "string \<Rightarrow> Session \<Rightarrow> (error + response) \<times> Session" where
  "get_questions name s =
     (case find_or_create_User name s of
        (Inl e, s1) \<Rightarrow> (Inl e, s1)
      | (Inr user, s1) \<Rightarrow>
          (case query_Question_all s1 of (qs, s2) \<Rightarrow>
             (Inr (TemplateResponse ''questions.html''
                     [(''user'', Str (User_name user)), (''questions'', Questions qs)]), s2)))"

text \<open>The expression \<^verbatim>\<open>int(key.split("_")[1])\<close>.\<close>

definition qid_of_key :: "string \<Rightarrow> error + int" where
  "qid_of_key key =
     (case getitem (str_split key CHR ''_'') 1 of
        Inl e \<Rightarrow> Inl e
      | Inr seg \<Rightarrow> py_int seg)"

text \<open>The loop over \<^verbatim>\<open>form.items()\<close> of \<^verbatim>\<open>submit_answers\<close>.\<close>

fun submit_loop :: "form \<Rightarrow> int \<Rightarrow> Session \<Rightarrow> (error + unit) \<times> Session" where
  "submit_loop [] uid s = (Inr (), s)"
| "submit_loop ((key, val) # items) uid s =
     (if startswith key ''question_'' then
        (case qid_of_key key of
           Inl e \<Rightarrow> (Inl e, s)
         | Inr qid \<Rightarrow> submit_loop items uid (add (New_Answer uid qid val) s))
      else submit_loop items uid s)"

definition submit_answers :: "form \<Rightarrow> Session \<Rightarrow> (error + response) \<times> Session" where
  "submit_answers form s =
     (case form_get form ''name'' of
        None \<Rightarrow> (Inr (RedirectResponse ''/'' 302), s)
      | Some name \<Rightarrow>
          (if name = [] then (Inr (RedirectResponse ''/'' 302), s)
           else
             (case find_or_create_User name s of
                (Inl e, s1) \<Rightarrow> (Inl e, s1)
              | (Inr user, s1) \<Rightarrow>
                  (case submit_loop form (User_id user) s1 of
                     (Inl e, s2) \<Rightarrow> (Inl e, s2)
                   | (Inr _, s2) \<Rightarrow>
                       (case commit s2 of
                          (Inl e, s3) \<Rightarrow> (Inl e, s3)
                        | (Inr _, s3) \<Rightarrow>
                            (Inr (TemplateResponse ''thankyou.html'' [(''name'', Str name)]),
                             s3))))))"

definition results_login :: "error + response" where
  "results_login = Inr (TemplateResponse ''results_login.html'' [])"

text \<open>
  The list comprehension over \<^verbatim>\<open>user.answers\<close> of \<^verbatim>\<open>view_results\<close>: reading
  \<^verbatim>\<open>.text\<close> of a question that is \<^verbatim>\<open>None\<close> raises \<^verbatim>\<open>AttributeError\<close>.
\<close>

fun answers_comprehension ::
  "Answer list \<Rightarrow> Session \<Rightarrow> (error + (string \<times> string) list) \<times> Session" where
  "answers_comprehension [] s = (Inr [], s)"
| "answers_comprehension (a # as) s =
     (case Answer_question a s of
        (None, s1) \<Rightarrow> (Inl AttributeError, s1)
      | (Some q, s1) \<Rightarrow>
          (case answers_comprehension as s1 of
             (Inl e, s2) \<Rightarrow> (Inl e, s2)
           | (Inr rest, s2) \<Rightarrow> (Inr ((Question_text q, Answer_answer_text a) # rest), s2)))"

text \<open>The loop over the users of \<^verbatim>\<open>view_results\<close>, which appends one entry per user.\<close>

fun results_loop :: "User list \<Rightarrow> Session \<Rightarrow> (error + result_entry list) \<times> Session" where
  "results_loop [] s = (Inr [], s)"
| "results_loop (user # rest) s =
     (case User_answers user s of (as, s1) \<Rightarrow>
        (case answers_comprehension as s1 of
           (Inl e, s2) \<Rightarrow> (Inl e, s2)
         | (Inr entries, s2) \<Rightarrow>
             (case results_loop rest s2 of
                (Inl e, s3) \<Rightarrow> (Inl e, s3)
              | (Inr data, s3) \<Rightarrow> (Inr ((User_name user, entries) # data), s3))))"

definition view_results :: "string \<Rightarrow> Session \<Rightarrow> (error + response) \<times> Session" where
  "view_results code s =
     (if code \<noteq> ''072823'' then
        (Inr (TemplateResponse ''results_login.html'' [(''error'', Str ''Invalid code.'')]), s)
      else
        (case query_User_all s of (us, s1) \<Rightarrow>
           (case results_loop us s1 of
              (Inl e, s2) \<Rightarrow> (Inl e, s2)
            | (Inr data, s2) \<Rightarrow>
                (Inr (TemplateResponse ''results.html'' [(''results'', Results data)]), s2))))"

section \<open>The application\<close>

text \<open>
  The dependency \<^verbatim>\<open>get_db\<close> opens a session for one request and closes it when the
  handler is done, also when it raised: what was added and not committed is dropped. A
  request leaves the handler's result, the database and the trace of the session.
\<close>

definition get_db :: "(Session \<Rightarrow> 'a \<times> Session) \<Rightarrow> database \<Rightarrow> 'a \<times> database \<times> db_op list" where
  "get_db handler d = (case handler (SessionLocal d) of (r, s) \<Rightarrow> (r, engine s, trace s))"

datatype request =
    GET_root
  | POST_questions string
  | POST_submit form
  | GET_results_login
  | POST_results string

text \<open>
  The routes. The requests to \<^verbatim>\<open>/questions\<close> and \<^verbatim>\<open>/results\<close> carry the value of the
  one form field the handler declares, \<^verbatim>\<open>name: str = Form(...)\<close> and
  \<^verbatim>\<open>code: str = Form(...)\<close>. Such a field is required: when its value is empty the
  framework answers with status 422 and neither calls the handler nor opens a session.
  \<^verbatim>\<open>submit_answers\<close> declares no field and reads the form itself.
\<close>

fun app :: "request \<Rightarrow> database \<Rightarrow> (error + response) \<times> database \<times> db_op list" where
  "app GET_root d = (read_root, d, [])"
| "app (POST_questions name) d =
     (if name = [] then (Inr (JSONResponse 422), d, []) else get_db (get_questions name) d)"
| "app (POST_submit form) d = get_db (submit_answers form) d"
| "app GET_results_login d = (results_login, d, [])"
| "app (POST_results code) d =
     (if code = [] then (Inr (JSONResponse 422), d, []) else get_db (view_results code) d)"

text \<open>The last lines of the module run the seed routine in a session of its own.\<close>

definition startup :: "database \<Rightarrow> (error + unit) \<times> database \<times> db_op list" where
  "startup d = get_db preload_questions d"

section \<open>Notions used to state the properties\<close>

text \<open>The fields of a form that the loop of \<^verbatim>\<open>submit_answers\<close> acts on.\<close>

definition question_fields :: "form \<Rightarrow> form" where
  "question_fields form = filter (\<lambda>(key, val). startswith key ''question_'') form"

text \<open>How many commits a trace holds.\<close>

definition commits :: "db_op list \<Rightarrow> nat" where
  "commits tr = length (filter (\<lambda>op. op = Commit) tr)"

text \<open>The two invariants of the data model: names are unique, and answers have a user.\<close>

definition users_unique :: "database \<Rightarrow> bool" where
  "users_unique d = distinct (map User_name (users d))"


text \<open>The row a new user gets, and the database after its insertion.\<close>

definition new_User_row :: "string \<Rightarrow> database \<Rightarrow> User" where
  "new_User_row n d = \<lparr>User_id = next_id (map User_id (users d)), User_name = n\<rparr>"

text \<open>
  The text of the question an answer points to, if there is one; and the database after a
  sequence of requests, each served on the database the one before it left.
\<close>

definition question_text_of :: "database \<Rightarrow> Answer \<Rightarrow> string option" where
  "question_text_of d a =
     map_option Question_text (find (\<lambda>q. Question_id q = Answer_question_id a) (questions d))"

fun serve :: "request list \<Rightarrow> database \<Rightarrow> database" where
  "serve [] d = d"
| "serve (r # rs) d = serve rs (fst (snd (app r d)))"

section \<open>Lemmas about the operations\<close>

lemma find_append_new: "find P xs = None \<Longrightarrow> P x \<Longrightarrow> find P (xs @ [x]) = Some x"
  by (induction xs) (auto split: if_splits)

lemma find_append_old: "find P xs = Some y \<Longrightarrow> find P (xs @ ys) = Some y"
  by (induction xs) (auto split: if_splits)

lemma find_name_None: "find (\<lambda>u. User_name u = n) us = None \<Longrightarrow> n \<notin> set (map User_name us)"
  by (auto simp: find_None_iff)

lemma find_or_create_found:
  "find (\<lambda>u. User_name u = n) (users (engine s)) = Some u \<Longrightarrow>
   find_or_create_User n s = (Inr u, s\<lparr>trace := trace s @ [Select ''users'']\<rparr>)"
  by (simp add: find_or_create_User_def query_User_filter_by_name_first_def)

lemma find_or_create_new:
  assumes "find (\<lambda>u. User_name u = n) (users (engine s)) = None" and "pending s = []"
  shows "find_or_create_User n s =
     (Inr (new_User_row n (engine s)),
      \<lparr>engine = (engine s)\<lparr>users := users (engine s) @ [new_User_row n (engine s)]\<rparr>,
       pending = [],
       trace = trace s @ [Select ''users'', Insert ''users'', Commit, Select ''users'']\<rparr>)"
proof -
  have notin: "n \<notin> set (map User_name (users (engine s)))"
    using assms(1) by (rule find_name_None)
  have refind: "find (\<lambda>u. User_name u = n) (users (engine s) @ [new_User_row n (engine s)])
      = Some (new_User_row n (engine s))"
    using assms(1) by (rule find_append_new) (simp add: new_User_row_def)
  show ?thesis
    using notin refind assms
    by (simp add: find_or_create_User_def query_User_filter_by_name_first_def commit_def add_def
        refresh_User_def new_User_row_def)
qed

lemma submit_loop_ok:
  "list_all (\<lambda>(k, v). \<exists>q. qid_of_key k = Inr q) (question_fields form) \<Longrightarrow>
   submit_loop form uid s =
     (Inr (), s\<lparr>pending := pending s @
        map (\<lambda>(k, v). New_Answer uid (projr (qid_of_key k)) v) (question_fields form)\<rparr>)"
proof (induction form arbitrary: s)
  case Nil
  then show ?case by (simp add: question_fields_def)
next
  case (Cons kv form)
  obtain k v where kv: "kv = (k, v)" by (cases kv)
  show ?case
  proof (cases "startswith k ''question_''")
    case True
    with Cons.prems kv obtain q where q: "qid_of_key k = Inr q"
      and rest: "list_all (\<lambda>(k, v). \<exists>q. qid_of_key k = Inr q) (question_fields form)"
      by (auto simp: question_fields_def)
    show ?thesis
      using True q kv Cons.IH [OF rest, of "add (New_Answer uid q v) s"]
      by (simp add: question_fields_def add_def)
  next
    case False
    with Cons.prems kv have rest: "list_all (\<lambda>(k, v). \<exists>q. qid_of_key k = Inr q) (question_fields form)"
      by (simp add: question_fields_def)
    show ?thesis
      using False kv Cons.IH [OF rest, of s] by (simp add: question_fields_def)
  qed
qed

lemma submit_loop_engine: "submit_loop form uid s = (r, s') \<Longrightarrow> engine s' = engine s"
proof (induction form arbitrary: s)
  case Nil
  then show ?case by simp
next
  case (Cons kv form)
  obtain k v where kv: "kv = (k, v)" by (cases kv)
  show ?case using Cons.prems Cons.IH kv
    by (auto simp: add_def split: if_splits sum.splits)
qed

lemma submit_loop_fail:
  "(k, v) \<in> set (question_fields form) \<Longrightarrow> qid_of_key k = Inl e \<Longrightarrow>
   \<exists>k' v' e' s'. (k', v') \<in> set (question_fields form) \<and> qid_of_key k' = Inl e' \<and>
      submit_loop form uid s = (Inl e', s')"
proof (induction form arbitrary: s)
  case Nil
  then show ?case by (simp add: question_fields_def)
next
  case (Cons kv form)
  obtain k0 v0 where kv: "kv = (k0, v0)" by (cases kv)
  show ?case
  proof (cases "startswith k0 ''question_''")
    case True
    show ?thesis
    proof (cases "qid_of_key k0")
      case (Inl e0)
      then show ?thesis using True kv by (auto simp: question_fields_def)
    next
      case (Inr q)
      with Cons.prems True kv have "(k, v) \<in> set (question_fields form)"
        by (auto simp: question_fields_def)
      from Cons.IH [OF this Cons.prems(2), of "add (New_Answer uid q v0) s"]
      show ?thesis using True kv Inr by (auto simp: question_fields_def)
    qed
  next
    case False
    with Cons.prems kv have "(k, v) \<in> set (question_fields form)"
      by (auto simp: question_fields_def)
    from Cons.IH [OF this Cons.prems(2), of s]
    show ?thesis using False kv by (auto simp: question_fields_def)
  qed
qed

lemma flush_answers:
  "list_all (\<lambda>(k, v). sqlite_integer (f k)) fs \<Longrightarrow>
   \<exists>rows. flush (map (\<lambda>(k, v). New_Answer uid (f k) v) fs) d = Inr (d\<lparr>answers := answers d @ rows\<rparr>) \<and>
     map (\<lambda>a. (Answer_user_id a, Answer_question_id a, Answer_answer_text a)) rows =
     map (\<lambda>(k, v). (uid, f k, v)) fs"
proof (induction fs arbitrary: d)
  case Nil
  show ?case by simp
next
  case (Cons kv fs)
  obtain k v where kv: "kv = (k, v)" by (cases kv)
  from Cons.prems kv have fits: "sqlite_integer (f k)"
    and rest: "list_all (\<lambda>(k, v). sqlite_integer (f k)) fs"
    by simp_all
  define row where "row = \<lparr>Answer_id = next_id (map Answer_id (answers d)), Answer_answer_text = v,
               Answer_user_id = uid, Answer_question_id = f k\<rparr>"
  from Cons.IH [OF rest, of "d\<lparr>answers := answers d @ [row]\<rparr>"]
  obtain rows where rows: "flush (map (\<lambda>(k, v). New_Answer uid (f k) v) fs) (d\<lparr>answers := answers d @ [row]\<rparr>)
       = Inr (d\<lparr>answers := answers d @ [row]\<rparr>\<lparr>answers := answers (d\<lparr>answers := answers d @ [row]\<rparr>) @ rows\<rparr>)"
     and m: "map (\<lambda>a. (Answer_user_id a, Answer_question_id a, Answer_answer_text a)) rows =
     map (\<lambda>(k, v). (uid, f k, v)) fs"
    by blast
  show ?case
    apply (rule exI [of _ "row # rows"])
    using rows m kv fits by (simp add: row_def)
qed

lemma flush_answers_overflow:
  "\<not> list_all (\<lambda>(k, v). sqlite_integer (f k)) fs \<Longrightarrow>
   flush (map (\<lambda>(k, v). New_Answer uid (f k) v) fs) d = Inl OverflowError"
proof (induction fs arbitrary: d)
  case Nil
  then show ?case by simp
next
  case (Cons kv fs)
  obtain k v where kv: "kv = (k, v)" by (cases kv)
  show ?case
  proof (cases "sqlite_integer (f k)")
    case True
    with Cons.prems kv have "\<not> list_all (\<lambda>(k, v). sqlite_integer (f k)) fs" by simp
    from Cons.IH [OF this] True kv show ?thesis by simp
  next
    case False
    with kv show ?thesis by simp
  qed
qed

lemma next_id_simps:
  "next_id [] = 1" "next_id (i # rest) = fold max rest i + 1"
  by (simp_all add: next_id_def)

subsection \<open>Strings\<close>

lemma str_split_not_Nil: "str_split s sep \<noteq> []"
  by (induction s) (auto split: list.splits)

lemma str_split_prefix:
  "sep \<notin> set p \<Longrightarrow> str_split (p @ sep # t) sep = p # str_split t sep"
  by (induction p) (auto split: list.splits)

lemma startswith_append: "startswith s p \<Longrightarrow> s = p @ drop (length p) s"
  unfolding startswith_def by (metis append_take_drop_id)

lemma str_split_question:
  assumes "startswith key ''question_''"
  shows "\<exists>seg rest. str_split key CHR ''_'' = ''question'' # seg # rest"
proof -
  obtain t where key: "key = ''question'' @ CHR ''_'' # t"
    using startswith_append [OF assms] by simp
  have "str_split key CHR ''_'' = ''question'' # str_split t CHR ''_''"
    unfolding key by (rule str_split_prefix) simp
  moreover obtain seg rest where "str_split t CHR ''_'' = seg # rest"
    using str_split_not_Nil [of t "CHR ''_''"] by (cases "str_split t CHR ''_''") auto
  ultimately show ?thesis by simp
qed

lemma py_int_error: "py_int s = Inl e \<Longrightarrow> e = ValueError"
  by (auto simp: py_int_def split: list.splits if_splits option.splits)

lemma qid_of_key_error:
  "startswith key ''question_'' \<Longrightarrow> qid_of_key key = Inl e \<Longrightarrow> e = ValueError"
  using str_split_question [of key]
  by (auto simp: qid_of_key_def eval_nat_numeral dest: py_int_error split: sum.splits)

lemma qid_of_key_segment:
  assumes "CHR ''_'' \<notin> set a"
  shows "qid_of_key (''question_'' @ a @ ''_'' @ b) = py_int a"
proof -
  have "str_split (''question'' @ CHR ''_'' # (a @ CHR ''_'' # b)) CHR ''_''
      = ''question'' # str_split (a @ CHR ''_'' # b) CHR ''_''"
    by (rule str_split_prefix) simp
  also have "str_split (a @ CHR ''_'' # b) CHR ''_'' = a # str_split b CHR ''_''"
    using assms by (rule str_split_prefix)
  finally show ?thesis
    by (simp add: qid_of_key_def split: sum.splits)
qed

lemma py_int_simps:
  "py_int ''1'' = Inr 1" "py_int ''2'' = Inr 2" "py_int ''5'' = Inr 5" "py_int ''99'' = Inr 99"
  "py_int ''abc'' = Inl ValueError" "py_int [] = Inl ValueError"
  "py_int ''5_extra'' = Inl ValueError"
  "py_int ''9223372036854775808'' = Inr 9223372036854775808"
  by (simp_all add: py_int_def parse_number_def max_str_digits_def strip_def is_space_def
      is_digit_def digit_value_def)

lemma qid_of_key_simps:
  "qid_of_key ''question_1'' = Inr 1" "qid_of_key ''question_2'' = Inr 2"
  "qid_of_key ''question_99'' = Inr 99"
  "qid_of_key ''question_abc'' = Inl ValueError" "qid_of_key ''question_'' = Inl ValueError"
  "qid_of_key ''question_9223372036854775808_x'' = Inr 9223372036854775808"
  by (simp_all add: qid_of_key_def py_int_simps)

lemma sqlite_integer_simps:
  "sqlite_integer 1" "sqlite_integer 2" "sqlite_integer 5" "sqlite_integer 99"
  "\<not> sqlite_integer 9223372036854775808"
  by (simp_all add: sqlite_integer_def)

subsection \<open>Find-or-create and the questions handler\<close>

lemma find_Some_mem: "find P xs = Some x \<Longrightarrow> x \<in> set xs \<and> P x"
  by (induction xs) (auto split: if_splits)

lemma find_or_create_session:
  "\<exists>u us tr. find_or_create_User n (SessionLocal d) =
       (Inr u, \<lparr>engine = d\<lparr>users := users d @ us\<rparr>, pending = [], trace = tr\<rparr>) \<and>
     us = (if find (\<lambda>u. User_name u = n) (users d) = None then [new_User_row n d] else []) \<and>
     find (\<lambda>u. User_name u = n) (users d @ us) = Some u \<and>
     Insert ''answers'' \<notin> set tr"
proof (cases "find (\<lambda>u. User_name u = n) (users d)")
  case None
  have "find (\<lambda>u. User_name u = n) (users d @ [new_User_row n d]) = Some (new_User_row n d)"
    using None by (rule find_append_new) (simp add: new_User_row_def)
  then show ?thesis
    using None find_or_create_new [of n "SessionLocal d"]
    by (simp add: SessionLocal_def)
next
  case (Some u)
  then show ?thesis
    using find_or_create_found [of n "SessionLocal d" u]
    by (simp add: SessionLocal_def)
qed

lemma get_questions_found:
  "find (\<lambda>u. User_name u = n) (users d) = Some u \<Longrightarrow>
   get_db (get_questions n) d =
     (Inr (TemplateResponse ''questions.html''
        [(''user'', Str (User_name u)), (''questions'', Questions (questions d))]),
      d, [Select ''users'', Select ''questions''])"
  by (simp add: get_db_def get_questions_def SessionLocal_def find_or_create_found
      query_Question_all_def)

lemma get_questions_new:
  "find (\<lambda>u. User_name u = n) (users d) = None \<Longrightarrow>
   get_db (get_questions n) d =
     (Inr (TemplateResponse ''questions.html''
        [(''user'', Str n), (''questions'', Questions (questions d))]),
      d\<lparr>users := users d @ [new_User_row n d]\<rparr>,
      [Select ''users'', Insert ''users'', Commit, Select ''users'', Select ''questions''])"
  by (simp add: get_db_def get_questions_def SessionLocal_def find_or_create_new
      query_Question_all_def new_User_row_def)

lemma filter_name_absent:
  "find (\<lambda>u. User_name u = n) us = None \<Longrightarrow> filter (\<lambda>u. User_name u = n) us = []"
  by (induction us) (auto split: if_splits)

lemma filter_name_distinct:
  "distinct (map User_name us) \<Longrightarrow> find (\<lambda>u. User_name u = n) us = Some u \<Longrightarrow>
   length (filter (\<lambda>u. User_name u = n) us) = 1"
proof (induction us)
  case Nil
  then show ?case by simp
next
  case (Cons x us)
  show ?case
  proof (cases "User_name x = n")
    case True
    with Cons.prems(1) have "n \<notin> set (map User_name us)" by auto
    then have "filter (\<lambda>u. User_name u = n) us = []"
      by (auto simp: filter_empty_conv)
    with True show ?thesis by simp
  next
    case False
    with Cons show ?thesis by simp
  qed
qed

subsection \<open>The submit handler\<close>

lemma submit_loop_trace: "submit_loop form uid s = (r, s') \<Longrightarrow> trace s' = trace s"
proof (induction form arbitrary: s)
  case Nil
  then show ?case by simp
next
  case (Cons kv form)
  obtain k v where kv: "kv = (k, v)" by (cases kv)
  show ?case using Cons.prems Cons.IH kv
    by (auto simp: add_def split: if_splits sum.splits)
qed

lemma fields_parse_cong:
  "list_all (\<lambda>(k, v). \<exists>q. qid_of_key k = Inr q) fs \<Longrightarrow>
   map (\<lambda>(k, v). (uid, Inr (projr (qid_of_key k)), v)) fs = map (\<lambda>(k, v). (uid, qid_of_key k, v)) fs"
  by (induction fs) auto

lemma fields_not_all_parse:
  "\<not> list_all (\<lambda>(k, v). \<exists>q. qid_of_key k = Inr q) fs \<Longrightarrow>
   \<exists>k v e. (k, v) \<in> set fs \<and> qid_of_key k = Inl e"
proof (induction fs)
  case Nil
  then show ?case by simp
next
  case (Cons kv fs)
  obtain k v where kv: "kv = (k, v)" by (cases kv)
  show ?case
  proof (cases "qid_of_key k")
    case (Inl e)
    with kv show ?thesis by auto
  next
    case (Inr q)
    with Cons kv show ?thesis by auto
  qed
qed

lemma submit_tail_ok:
  assumes ok: "list_all (\<lambda>(k, v). \<exists>q. qid_of_key k = Inr q) (question_fields form)"
    and fit: "list_all (\<lambda>(k, v). sqlite_integer (projr (qid_of_key k))) (question_fields form)"
  shows "\<exists>rows tr.
     (case submit_loop form uid \<lparr>engine = dd, pending = [], trace = tt\<rparr> of
        (Inl e, s2) \<Rightarrow> (Inl e, s2)
      | (Inr _, s2) \<Rightarrow>
          (case commit s2 of
             (Inl e, s3) \<Rightarrow> (Inl e, s3)
           | (Inr _, s3) \<Rightarrow> (Inr R, s3)))
       = (Inr R, \<lparr>engine = dd\<lparr>answers := answers dd @ rows\<rparr>, pending = [], trace = tr\<rparr>) \<and>
     map (\<lambda>a. (Answer_user_id a, Inr (Answer_question_id a), Answer_answer_text a)) rows =
       map (\<lambda>(k, v). (uid, qid_of_key k, v)) (question_fields form)"
proof -
  let ?objs = "map (\<lambda>(k, v). New_Answer uid (projr (qid_of_key k)) v) (question_fields form)"
  obtain rows where fl: "flush ?objs dd = Inr (dd\<lparr>answers := answers dd @ rows\<rparr>)"
    and m: "map (\<lambda>a. (Answer_user_id a, Answer_question_id a, Answer_answer_text a)) rows =
            map (\<lambda>(k, v). (uid, projr (qid_of_key k), v)) (question_fields form)"
    using flush_answers [of "\<lambda>k. projr (qid_of_key k)" "question_fields form" uid dd, OF fit]
    by blast
  have "map (\<lambda>a. (Answer_user_id a, Inr (Answer_question_id a), Answer_answer_text a)) rows
      = map (\<lambda>(u, q, t). (u, Inr q, t))
          (map (\<lambda>a. (Answer_user_id a, Answer_question_id a, Answer_answer_text a)) rows)"
    by simp
  also have "\<dots> = map (\<lambda>(k, v). (uid, Inr (projr (qid_of_key k)), v)) (question_fields form)"
    unfolding m by (simp add: case_prod_unfold)
  also have "\<dots> = map (\<lambda>(k, v). (uid, qid_of_key k, v)) (question_fields form)"
    using ok by (rule fields_parse_cong)
  finally have m': "map (\<lambda>a. (Answer_user_id a, Inr (Answer_question_id a), Answer_answer_text a)) rows
      = map (\<lambda>(k, v). (uid, qid_of_key k, v)) (question_fields form)" .
  have "(case submit_loop form uid \<lparr>engine = dd, pending = [], trace = tt\<rparr> of
        (Inl e, s2) \<Rightarrow> (Inl e, s2)
      | (Inr _, s2) \<Rightarrow>
          (case commit s2 of
             (Inl e, s3) \<Rightarrow> (Inl e, s3)
           | (Inr _, s3) \<Rightarrow> (Inr R, s3)))
       = (Inr R, \<lparr>engine = dd\<lparr>answers := answers dd @ rows\<rparr>, pending = [],
                  trace = tt @ map (\<lambda>obj. Insert (table_of obj)) ?objs @ [Commit]\<rparr>)"
    using submit_loop_ok [OF ok, of uid "\<lparr>engine = dd, pending = [], trace = tt\<rparr>"] fl
    by (simp add: commit_def)
  with m' show ?thesis by blast
qed

lemma submit_tail_overflow:
  assumes ok: "list_all (\<lambda>(k, v). \<exists>q. qid_of_key k = Inr q) (question_fields form)"
    and unfit: "\<not> list_all (\<lambda>(k, v). sqlite_integer (projr (qid_of_key k))) (question_fields form)"
  shows
    "(case submit_loop form uid \<lparr>engine = dd, pending = [], trace = tt\<rparr> of
        (Inl e, s2) \<Rightarrow> (Inl e, s2)
      | (Inr _, s2) \<Rightarrow>
          (case commit s2 of
             (Inl e, s3) \<Rightarrow> (Inl e, s3)
           | (Inr _, s3) \<Rightarrow> (Inr R, s3)))
       = (Inl OverflowError, \<lparr>engine = dd, pending = [], trace = tt\<rparr>)"
  using submit_loop_ok [OF ok, of uid "\<lparr>engine = dd, pending = [], trace = tt\<rparr>"]
    flush_answers_overflow [OF unfit, of uid dd]
  by (simp add: commit_def)

lemma fields_ok_split:
  "list_all (\<lambda>(k, v). \<exists>q. qid_of_key k = Inr q \<and> sqlite_integer q) fs \<longleftrightarrow>
   list_all (\<lambda>(k, v). \<exists>q. qid_of_key k = Inr q) fs \<and>
   list_all (\<lambda>(k, v). sqlite_integer (projr (qid_of_key k))) fs"
  by (induction fs) auto

lemma submit_tail_fail:
  assumes bad: "(k, v) \<in> set (question_fields form)" "qid_of_key k = Inl e"
  shows "\<exists>s2.
     (case submit_loop form uid ss of
        (Inl e, s2) \<Rightarrow> (Inl e, s2)
      | (Inr _, s2) \<Rightarrow>
          (case commit s2 of
             (Inl e, s3) \<Rightarrow> (Inl e, s3)
           | (Inr _, s3) \<Rightarrow> (Inr R, s3)))
       = (Inl ValueError, s2) \<and> engine s2 = engine ss \<and> trace s2 = trace ss"
proof -
  obtain k' v' e' s' where k': "(k', v') \<in> set (question_fields form)"
    and e': "qid_of_key k' = Inl e'" and loop: "submit_loop form uid ss = (Inl e', s')"
    using submit_loop_fail [OF bad, of uid ss] by blast
  have "startswith k' ''question_''"
    using k' by (auto simp: question_fields_def)
  then have "e' = ValueError"
    using e' by (rule qid_of_key_error)
  then show ?thesis
    using loop submit_loop_engine [OF loop] submit_loop_trace [OF loop] by simp
qed

lemma submit_ok:
  assumes name: "form_get form ''name'' = Some n" "n \<noteq> []"
    and ok: "list_all (\<lambda>(k, v). \<exists>q. qid_of_key k = Inr q) (question_fields form)"
    and fit: "list_all (\<lambda>(k, v). sqlite_integer (projr (qid_of_key k))) (question_fields form)"
  shows "\<exists>u rows tr.
     app (POST_submit form) d =
       (Inr (TemplateResponse ''thankyou.html'' [(''name'', Str n)]),
        d\<lparr>users := users d @ (if find (\<lambda>u. User_name u = n) (users d) = None
                               then [new_User_row n d] else []),
          answers := answers d @ rows\<rparr>, tr) \<and>
     find (\<lambda>u. User_name u = n)
       (users d @ (if find (\<lambda>u. User_name u = n) (users d) = None
                   then [new_User_row n d] else [])) = Some u \<and>
     map (\<lambda>a. (Answer_user_id a, Inr (Answer_question_id a), Answer_answer_text a)) rows =
       map (\<lambda>(k, v). (User_id u, qid_of_key k, v)) (question_fields form)"
proof -
  let ?us = "if find (\<lambda>u. User_name u = n) (users d) = None then [new_User_row n d] else []"
  obtain u tr1 where foc: "find_or_create_User n (SessionLocal d) =
       (Inr u, \<lparr>engine = d\<lparr>users := users d @ ?us\<rparr>, pending = [], trace = tr1\<rparr>)"
    and u: "find (\<lambda>u. User_name u = n) (users d @ ?us) = Some u"
    using find_or_create_session [of n d] by auto
  obtain rows tr where tail:
    "(case submit_loop form (User_id u) \<lparr>engine = d\<lparr>users := users d @ ?us\<rparr>, pending = [], trace = tr1\<rparr> of
        (Inl e, s2) \<Rightarrow> (Inl e, s2)
      | (Inr _, s2) \<Rightarrow>
          (case commit s2 of
             (Inl e, s3) \<Rightarrow> (Inl e, s3)
           | (Inr _, s3) \<Rightarrow> (Inr (TemplateResponse ''thankyou.html'' [(''name'', Str n)]), s3)))
       = (Inr (TemplateResponse ''thankyou.html'' [(''name'', Str n)]),
          \<lparr>engine = d\<lparr>users := users d @ ?us\<rparr>\<lparr>answers := answers (d\<lparr>users := users d @ ?us\<rparr>) @ rows\<rparr>,
           pending = [], trace = tr\<rparr>)"
    and m: "map (\<lambda>a. (Answer_user_id a, Inr (Answer_question_id a), Answer_answer_text a)) rows =
       map (\<lambda>(k, v). (User_id u, qid_of_key k, v)) (question_fields form)"
    using submit_tail_ok [OF ok fit, where uid = "User_id u" and dd = "d\<lparr>users := users d @ ?us\<rparr>"
        and tt = tr1 and R = "TemplateResponse ''thankyou.html'' [(''name'', Str n)]"]
    by blast
  have "app (POST_submit form) d =
       (Inr (TemplateResponse ''thankyou.html'' [(''name'', Str n)]),
        d\<lparr>users := users d @ ?us, answers := answers d @ rows\<rparr>, tr)"
    using name foc tail by (simp add: get_db_def submit_answers_def)
  with u m show ?thesis by blast
qed

lemma submit_fail:
  assumes name: "form_get form ''name'' = Some n" "n \<noteq> []"
    and bad: "(k, v) \<in> set (question_fields form)" "qid_of_key k = Inl e"
  shows "\<exists>tr.
     app (POST_submit form) d =
       (Inl ValueError,
        d\<lparr>users := users d @ (if find (\<lambda>u. User_name u = n) (users d) = None
                               then [new_User_row n d] else [])\<rparr>, tr) \<and>
     Insert ''answers'' \<notin> set tr"
proof -
  let ?us = "if find (\<lambda>u. User_name u = n) (users d) = None then [new_User_row n d] else []"
  obtain u tr1 where foc: "find_or_create_User n (SessionLocal d) =
       (Inr u, \<lparr>engine = d\<lparr>users := users d @ ?us\<rparr>, pending = [], trace = tr1\<rparr>)"
    and tr1: "Insert ''answers'' \<notin> set tr1"
    using find_or_create_session [of n d] by auto
  obtain s2 where tail:
    "(case submit_loop form (User_id u) \<lparr>engine = d\<lparr>users := users d @ ?us\<rparr>, pending = [], trace = tr1\<rparr> of
        (Inl e, s2) \<Rightarrow> (Inl e, s2)
      | (Inr _, s2) \<Rightarrow>
          (case commit s2 of
             (Inl e, s3) \<Rightarrow> (Inl e, s3)
           | (Inr _, s3) \<Rightarrow> (Inr (TemplateResponse ''thankyou.html'' [(''name'', Str n)]), s3)))
       = (Inl ValueError, s2)"
    and s2: "engine s2 = d\<lparr>users := users d @ ?us\<rparr>" "trace s2 = tr1"
    using submit_tail_fail [OF bad, where uid = "User_id u"
        and ss = "\<lparr>engine = d\<lparr>users := users d @ ?us\<rparr>, pending = [], trace = tr1\<rparr>"
        and R = "TemplateResponse ''thankyou.html'' [(''name'', Str n)]"]
    by auto
  have "app (POST_submit form) d = (Inl ValueError, d\<lparr>users := users d @ ?us\<rparr>, tr1)"
    using name foc tail s2 by (simp add: get_db_def submit_answers_def)
  with tr1 show ?thesis by blast
qed

lemma submit_overflow:
  assumes name: "form_get form ''name'' = Some n" "n \<noteq> []"
    and ok: "list_all (\<lambda>(k, v). \<exists>q. qid_of_key k = Inr q) (question_fields form)"
    and unfit: "\<not> list_all (\<lambda>(k, v). sqlite_integer (projr (qid_of_key k))) (question_fields form)"
  shows "\<exists>tr.
     app (POST_submit form) d =
       (Inl OverflowError,
        d\<lparr>users := users d @ (if find (\<lambda>u. User_name u = n) (users d) = None
                               then [new_User_row n d] else [])\<rparr>, tr) \<and>
     Insert ''answers'' \<notin> set tr"
proof -
  let ?us = "if find (\<lambda>u. User_name u = n) (users d) = None then [new_User_row n d] else []"
  obtain u tr1 where foc: "find_or_create_User n (SessionLocal d) =
       (Inr u, \<lparr>engine = d\<lparr>users := users d @ ?us\<rparr>, pending = [], trace = tr1\<rparr>)"
    and tr1: "Insert ''answers'' \<notin> set tr1"
    using find_or_create_session [of n d] by auto
  have "app (POST_submit form) d = (Inl OverflowError, d\<lparr>users := users d @ ?us\<rparr>, tr1)"
    using name foc
      submit_tail_overflow [OF ok unfit, where uid = "User_id u"
        and dd = "d\<lparr>users := users d @ ?us\<rparr>" and tt = tr1
        and R = "TemplateResponse ''thankyou.html'' [(''name'', Str n)]"]
    by (simp add: get_db_def submit_answers_def)
  with tr1 show ?thesis by blast
qed

lemma submit_accepted_parses:
  assumes "form_get form ''name'' = Some n" and "n \<noteq> []"
    and "app (POST_submit form) d = (Inr resp, d', tr)"
  shows "list_all (\<lambda>(k, v). \<exists>q. qid_of_key k = Inr q) (question_fields form) \<and>
     list_all (\<lambda>(k, v). sqlite_integer (projr (qid_of_key k))) (question_fields form)"
proof -
  have ok: "list_all (\<lambda>(k, v). \<exists>q. qid_of_key k = Inr q) (question_fields form)"
  proof (rule ccontr)
    assume "\<not> ?thesis"
    then obtain k v e where "(k, v) \<in> set (question_fields form)" "qid_of_key k = Inl e"
      using fields_not_all_parse by blast
    from submit_fail [OF assms(1,2) this, of d] assms(3) show False by auto
  qed
  have "list_all (\<lambda>(k, v). sqlite_integer (projr (qid_of_key k))) (question_fields form)"
  proof (rule ccontr)
    assume "\<not> ?thesis"
    from submit_overflow [OF assms(1,2) ok this, of d] assms(3) show False by auto
  qed
  with ok show ?thesis by simp
qed



lemma rows_of_user:
  assumes "map (\<lambda>a. (Answer_user_id a, Inr (Answer_question_id a) :: error + int, Answer_answer_text a)) rows =
       map (\<lambda>(k, v). (uid, qid_of_key k, v)) fs"
  shows "list_all (\<lambda>a. Answer_user_id a = uid) rows"
proof -
  have "map fst (map (\<lambda>a. (Answer_user_id a, Inr (Answer_question_id a) :: error + int, Answer_answer_text a)) rows)
      = map fst (map (\<lambda>(k, v). (uid, qid_of_key k, v)) fs)"
    using assms by simp
  then have "map Answer_user_id rows = map (\<lambda>kv. uid) fs"
    by (simp add: comp_def case_prod_unfold)
  then have "set (map Answer_user_id rows) \<subseteq> {uid}"
    by auto
  then show ?thesis
    by (auto simp: list_all_iff)
qed

subsection \<open>The results handler\<close>

lemma answers_comprehension_engine:
  "answers_comprehension as s = (r, s') \<Longrightarrow> engine s' = engine s"
  by (induction as arbitrary: s r s')
     (auto simp: Answer_question_def split: option.splits prod.splits sum.splits)

lemma results_loop_engine:
  "results_loop us s = (r, s') \<Longrightarrow> engine s' = engine s"
proof (induction us arbitrary: s r s')
  case Nil
  then show ?case by simp
next
  case (Cons u us)
  obtain r1 s1 where c: "answers_comprehension (fst (User_answers u s)) (snd (User_answers u s)) = (r1, s1)"
    by (cases "answers_comprehension (fst (User_answers u s)) (snd (User_answers u s))")
  have e1: "engine s1 = engine s"
    using answers_comprehension_engine [OF c] by (simp add: User_answers_def)
  show ?case
  proof (cases r1)
    case (Inl e)
    with Cons.prems c e1 show ?thesis by (simp add: case_prod_unfold)
  next
    case (Inr entries)
    obtain r2 s2 where l: "results_loop us s1 = (r2, s2)" by (cases "results_loop us s1")
    from Cons.IH [OF l] e1 have "engine s2 = engine s" by simp
    with Cons.prems c l Inr show ?thesis
      by (auto simp: case_prod_unfold split: sum.splits)
  qed
qed

lemma view_results_database:
  "app (POST_results code) d = (r, d', tr) \<Longrightarrow> d' = d"
proof -
  assume a: "app (POST_results code) d = (r, d', tr)"
  obtain r1 s1 where v: "view_results code (SessionLocal d) = (r1, s1)"
    by (cases "view_results code (SessionLocal d)")
  have "engine s1 = d"
  proof (cases "code = ''072823''")
    case False
    with v show ?thesis by (auto simp: view_results_def SessionLocal_def)
  next
    case True
    obtain r2 s2 where l: "results_loop (users d) (SessionLocal d\<lparr>trace := [Select ''users'']\<rparr>) = (r2, s2)"
      by (cases "results_loop (users d) (SessionLocal d\<lparr>trace := [Select ''users'']\<rparr>)")
    have "engine s2 = d" using results_loop_engine [OF l] by (simp add: SessionLocal_def)
    with v l True show ?thesis
      by (auto simp: view_results_def query_User_all_def SessionLocal_def split: sum.splits)
  qed
  with a v show ?thesis by (auto simp: get_db_def split: if_splits)
qed

lemma answers_comprehension_mem:
  "answers_comprehension as s = (Inr es, s') \<Longrightarrow> a \<in> set as \<Longrightarrow>
   find (\<lambda>q. Question_id q = Answer_question_id a) (questions (engine s)) = Some qu \<Longrightarrow>
   (Question_text qu, Answer_answer_text a) \<in> set es"
proof (induction as arbitrary: s es s')
  case Nil
  then show ?case by simp
next
  case (Cons a0 as)
  let ?s1 = "s\<lparr>trace := trace s @ [Select ''questions'']\<rparr>"
  from Cons.prems(1) obtain q0 where q0:
    "find (\<lambda>q. Question_id q = Answer_question_id a0) (questions (engine s)) = Some q0"
    by (auto simp: Answer_question_def split: option.splits)
  from Cons.prems(1) q0 obtain rest s2 where rest: "answers_comprehension as ?s1 = (Inr rest, s2)"
    and es: "es = (Question_text q0, Answer_answer_text a0) # rest"
    by (auto simp: Answer_question_def split: prod.splits sum.splits)
  show ?case
  proof (cases "a = a0")
    case True
    with q0 Cons.prems(3) es show ?thesis by simp
  next
    case False
    with Cons.prems(2) have "a \<in> set as" by simp
    from Cons.IH [OF rest this] Cons.prems(3) es show ?thesis by simp
  qed
qed

lemma results_loop_mem:
  "results_loop us s = (Inr data, s') \<Longrightarrow> u \<in> set us \<Longrightarrow>
   a \<in> set (answers (engine s)) \<Longrightarrow> Answer_user_id a = User_id u \<Longrightarrow>
   find (\<lambda>q. Question_id q = Answer_question_id a) (questions (engine s)) = Some qu \<Longrightarrow>
   \<exists>entries. (User_name u, entries) \<in> set data \<and>
      (Question_text qu, Answer_answer_text a) \<in> set entries"
proof (induction us arbitrary: s data s')
  case Nil
  then show ?case by simp
next
  case (Cons u0 us)
  let ?as = "filter (\<lambda>a. Answer_user_id a = User_id u0) (answers (engine s))"
  let ?s1 = "s\<lparr>trace := trace s @ [Select ''answers'']\<rparr>"
  from Cons.prems(1) obtain entries0 s2 where c: "answers_comprehension ?as ?s1 = (Inr entries0, s2)"
    by (auto simp: User_answers_def split: prod.splits sum.splits)
  have e2: "engine s2 = engine s"
    using answers_comprehension_engine [OF c] by simp
  from Cons.prems(1) c obtain rest s3 where l: "results_loop us s2 = (Inr rest, s3)"
    and data: "data = (User_name u0, entries0) # rest"
    by (auto simp: User_answers_def split: prod.splits sum.splits)
  show ?case
  proof (cases "u = u0")
    case True
    with Cons.prems(3,4) have "a \<in> set ?as" by simp
    from answers_comprehension_mem [OF c this] Cons.prems(5)
    have "(Question_text qu, Answer_answer_text a) \<in> set entries0" by simp
    with True data show ?thesis by auto
  next
    case False
    with Cons.prems(2) have "u \<in> set us" by simp
    from Cons.IH [OF l this] Cons.prems(3,4,5) e2 data show ?thesis by auto
  qed
qed

lemma answers_comprehension_ok:
  "list_all (\<lambda>a. question_text_of (engine s) a \<noteq> None) as \<Longrightarrow>
   \<exists>s'. answers_comprehension as s =
     (Inr (map (\<lambda>a. (the (question_text_of (engine s) a), Answer_answer_text a)) as), s')"
proof (induction as arbitrary: s)
  case Nil
  then show ?case by simp
next
  case (Cons a as)
  let ?s1 = "s\<lparr>trace := trace s @ [Select ''questions'']\<rparr>"
  from Cons.prems obtain q where q:
    "find (\<lambda>q. Question_id q = Answer_question_id a) (questions (engine s)) = Some q"
    by (auto simp: question_text_of_def)
  from Cons.prems have "list_all (\<lambda>a. question_text_of (engine ?s1) a \<noteq> None) as"
    by simp
  from Cons.IH [OF this] obtain s' where
    "answers_comprehension as ?s1 =
       (Inr (map (\<lambda>a. (the (question_text_of (engine s) a), Answer_answer_text a)) as), s')"
    by auto
  with q show ?case
    by (simp add: Answer_question_def question_text_of_def)
qed

lemma results_loop_ok:
  "list_all (\<lambda>a. Answer_user_id a \<in> set (map User_id us) \<longrightarrow> question_text_of (engine s) a \<noteq> None)
     (answers (engine s)) \<Longrightarrow>
   \<exists>s'. results_loop us s =
     (Inr (map (\<lambda>u. (User_name u,
              map (\<lambda>a. (the (question_text_of (engine s) a), Answer_answer_text a))
                (filter (\<lambda>a. Answer_user_id a = User_id u) (answers (engine s))))) us), s')"
proof (induction us arbitrary: s)
  case Nil
  then show ?case by simp
next
  case (Cons u us)
  let ?as = "filter (\<lambda>a. Answer_user_id a = User_id u) (answers (engine s))"
  let ?s1 = "s\<lparr>trace := trace s @ [Select ''answers'']\<rparr>"
  have "list_all (\<lambda>a. question_text_of (engine ?s1) a \<noteq> None) ?as"
    using Cons.prems by (auto simp: list_all_iff)
  from answers_comprehension_ok [OF this] obtain s2 where c:
    "answers_comprehension ?as ?s1 =
       (Inr (map (\<lambda>a. (the (question_text_of (engine s) a), Answer_answer_text a)) ?as), s2)"
    by auto
  have e2: "engine s2 = engine s"
    using answers_comprehension_engine [OF c] by simp
  have "list_all (\<lambda>a. Answer_user_id a \<in> set (map User_id us) \<longrightarrow> question_text_of (engine s2) a \<noteq> None)
     (answers (engine s2))"
    using Cons.prems unfolding e2 by (auto simp: list_all_iff)
  from Cons.IH [OF this] obtain s3 where
    "results_loop us s2 =
     (Inr (map (\<lambda>u. (User_name u,
              map (\<lambda>a. (the (question_text_of (engine s) a), Answer_answer_text a))
                (filter (\<lambda>a. Answer_user_id a = User_id u) (answers (engine s))))) us), s3)"
    unfolding e2 by auto
  with c show ?case
    by (simp add: User_answers_def)
qed

text \<open>
  A wrong code that is not empty gets the login form with the error message and touches
  nothing; an empty code is answered 422. The right code gets the results view, with one entry per user in table order and in it one pair
  per answer of that user, provided every answer of a listed user points to a question
  that exists.
\<close>

lemma view_results_wrong_code:
  "code \<noteq> ''072823'' \<Longrightarrow> code \<noteq> [] \<Longrightarrow>
   app (POST_results code) d =
     (Inr (TemplateResponse ''results_login.html'' [(''error'', Str ''Invalid code.'')]), d, []) \<and>
   status_code (TemplateResponse ''results_login.html'' [(''error'', Str ''Invalid code.'')]) = 200"
  by (simp add: get_db_def view_results_def SessionLocal_def)

lemma view_results_ok:
  assumes "list_all (\<lambda>a. Answer_user_id a \<in> set (map User_id (users d)) \<longrightarrow> question_text_of d a \<noteq> None)
     (answers d)"
  shows "\<exists>tr. app (POST_results ''072823'') d =
     (Inr (TemplateResponse ''results.html''
        [(''results'', Results (map (\<lambda>u. (User_name u,
              map (\<lambda>a. (the (question_text_of d a), Answer_answer_text a))
                (filter (\<lambda>a. Answer_user_id a = User_id u) (answers d)))) (users d)))]), d, tr)"
proof -
  let ?s1 = "\<lparr>engine = d, pending = [], trace = [Select ''users'']\<rparr>"
  have "list_all (\<lambda>a. Answer_user_id a \<in> set (map User_id (users d)) \<longrightarrow> question_text_of (engine ?s1) a \<noteq> None)
     (answers (engine ?s1))"
    using assms by simp
  from results_loop_ok [OF this] obtain s' where l: "results_loop (users d) ?s1 =
     (Inr (map (\<lambda>u. (User_name u,
              map (\<lambda>a. (the (question_text_of d a), Answer_answer_text a))
                (filter (\<lambda>a. Answer_user_id a = User_id u) (answers d)))) (users d)), s')"
    by auto
  have "engine s' = d"
    using results_loop_engine [OF l] by simp
  with l show ?thesis
    by (simp add: get_db_def view_results_def query_User_all_def SessionLocal_def)
qed

subsection \<open>Every handler\<close>


lemma app_effect:
  assumes "app r d = (res, d', tr)"
  shows "\<exists>us rows. d' = d\<lparr>users := users d @ us, answers := answers d @ rows\<rparr> \<and>
     (us = [] \<or> (\<exists>n. find (\<lambda>u. User_name u = n) (users d) = None \<and> us = [new_User_row n d])) \<and>
     list_all (\<lambda>a. Answer_user_id a \<in> set (map User_id (users d @ us))) rows"
proof -
  have d': "d' = fst (snd (app r d))"
    using assms by simp
  have same: "d' = d \<Longrightarrow> ?thesis"
    by (rule exI [of _ "[]"], rule exI [of _ "[]"]) simp
  show ?thesis
  proof (cases r)
    case GET_root
    with assms same show ?thesis by simp
  next
    case GET_results_login
    with assms same show ?thesis by simp
  next
    case (POST_results code)
    with assms same view_results_database show ?thesis by blast
  next
    case (POST_questions n)
    show ?thesis
    proof (cases "n = []")
      case True
      have "d' = d"
        unfolding d' POST_questions using True by simp
      with same show ?thesis .
    next
      case False
      then have route: "app (POST_questions n) d = get_db (get_questions n) d"
        by simp
      show ?thesis
      proof (cases "find (\<lambda>u. User_name u = n) (users d)")
        case None
        have "d' = d\<lparr>users := users d @ [new_User_row n d], answers := answers d @ []\<rparr>"
          unfolding d' POST_questions route get_questions_new [OF None] by simp
        with None show ?thesis by (intro exI conjI) (assumption, auto)
      next
        case (Some u)
        have "d' = d"
          unfolding d' POST_questions route get_questions_found [OF Some] by simp
        with same show ?thesis .
      qed
    qed
  next
    case (POST_submit form)
    show ?thesis
    proof (cases "form_get form ''name''")
      case None
      with assms POST_submit have "d' = d"
        by (simp add: get_db_def submit_answers_def SessionLocal_def)
      with same show ?thesis .
    next
      case (Some n)
      show ?thesis
      proof (cases "n = []")
        case True
        with Some assms POST_submit have "d' = d"
          by (simp add: get_db_def submit_answers_def SessionLocal_def)
        with same show ?thesis .
      next
        case False
        let ?us = "if find (\<lambda>u. User_name u = n) (users d) = None then [new_User_row n d] else []"
        have us: "?us = [] \<or> (\<exists>n. find (\<lambda>u. User_name u = n) (users d) = None \<and> ?us = [new_User_row n d])"
          by auto
        show ?thesis
        proof (cases "list_all (\<lambda>(k, v). \<exists>q. qid_of_key k = Inr q) (question_fields form)")
          case parse: True
          show ?thesis
          proof (cases "list_all (\<lambda>(k, v). sqlite_integer (projr (qid_of_key k)))
                          (question_fields form)")
          case True
          obtain u rows tr0 where run: "app (POST_submit form) d =
              (Inr (TemplateResponse ''thankyou.html'' [(''name'', Str n)]),
               d\<lparr>users := users d @ ?us, answers := answers d @ rows\<rparr>, tr0)"
            and u: "find (\<lambda>u. User_name u = n) (users d @ ?us) = Some u"
            and m: "map (\<lambda>a. (Answer_user_id a, Inr (Answer_question_id a), Answer_answer_text a)) rows =
               map (\<lambda>(k, v). (User_id u, qid_of_key k, v)) (question_fields form)"
            using submit_ok [OF Some False parse True, of d] by blast
          have d'': "d' = d\<lparr>users := users d @ ?us, answers := answers d @ rows\<rparr>"
            unfolding d' POST_submit run by simp
          have "u \<in> set (users d @ ?us)" using find_Some_mem [OF u] by simp
          then have "User_id u \<in> set (map User_id (users d @ ?us))"
            unfolding set_map by (rule imageI)
          with rows_of_user [OF m]
          have "list_all (\<lambda>a. Answer_user_id a \<in> set (map User_id (users d @ ?us))) rows"
            by (auto simp: list_all_iff)
          with d'' us show ?thesis by blast
          next
            case unfit: False
            from submit_overflow [OF Some False parse unfit, of d]
            obtain tr0 where
              "app (POST_submit form) d = (Inl OverflowError, d\<lparr>users := users d @ ?us\<rparr>, tr0)"
              by blast
            then have "d' = d\<lparr>users := users d @ ?us, answers := answers d @ []\<rparr>"
              unfolding d' POST_submit by simp
            with us show ?thesis by (intro exI conjI) (assumption, auto)
          qed
        next
          case bad: False
          obtain k v e where "(k, v) \<in> set (question_fields form)" "qid_of_key k = Inl e"
            using fields_not_all_parse [OF bad] by blast
          from submit_fail [OF Some False this, of d]
          obtain tr0 where "app (POST_submit form) d = (Inl ValueError, d\<lparr>users := users d @ ?us\<rparr>, tr0)"
            by blast
          then have "d' = d\<lparr>users := users d @ ?us, answers := answers d @ []\<rparr>"
            unfolding d' POST_submit by simp
          with us show ?thesis by (intro exI conjI) (assumption, auto)
        qed
      qed
    qed
  qed
qed

lemma serve_keeps:
  "\<exists>us rows. serve rs d = d\<lparr>users := users d @ us, answers := answers d @ rows\<rparr>"
proof (induction rs arbitrary: d)
  case Nil
  show ?case by (rule exI [of _ "[]"], rule exI [of _ "[]"]) simp
next
  case (Cons r rs)
  obtain res d1 tr where a: "app r d = (res, d1, tr)" by (cases "app r d") auto
  from app_effect [OF a] obtain us1 rows1 where
    d1: "d1 = d\<lparr>users := users d @ us1, answers := answers d @ rows1\<rparr>" by blast
  from Cons.IH [of d1] obtain us2 rows2 where
    "serve rs d1 = d1\<lparr>users := users d1 @ us2, answers := answers d1 @ rows2\<rparr>" by blast
  then have "serve (r # rs) d = d\<lparr>users := users d @ (us1 @ us2), answers := answers d @ (rows1 @ rows2)\<rparr>"
    using a d1 by simp
  then show ?case by blast
qed

lemmas handler_defs =
  get_db_def SessionLocal_def get_questions_def submit_answers_def view_results_def
  sqlite_integer_def
  find_or_create_User_def query_User_filter_by_name_first_def refresh_User_def
  query_Question_all_def query_User_all_def User_answers_def Answer_question_def
  commit_def add_def form_get_def startswith_def next_id_simps

section \<open>The seed routine\<close>

text \<open>
  Claim C3, as the code has it. Whatever the database holds when the process starts, the
  seed routine succeeds and leaves the users and the answers alone; the questions table
  then holds exactly the ten prompts of the fixed list, in the order of the list, with the
  keys 1 to 10. The routine deletes the old questions and commits, then inserts the ten
  prompts and commits again: two commits, not one.
\<close>

theorem preload_questions_reseeds:
  "startup d =
     (Inr (),
      d\<lparr>questions :=
          map (\<lambda>(i, t). \<lparr>Question_id = i, Question_text = t\<rparr>)
            (zip [1, 2, 3, 4, 5, 6, 7, 8, 9, 10] new_questions)\<rparr>,
      [Delete ''questions'', Commit] @ replicate 10 (Insert ''questions'') @ [Commit])
   \<and> commits (snd (snd (startup d))) = 2"
  by (simp add: startup_def get_db_def preload_questions_def commit_def query_Question_delete_def
      SessionLocal_def add_def new_questions_def next_id_simps eval_nat_numeral commits_def)

text \<open>
  Claim C3 as the specification words it says that the seed routine commits once. On the
  empty database the trace of the routine does not hold exactly one commit.
\<close>

theorem preload_questions_commits_counterexample:
  "commits (snd (snd (startup \<lparr>users = [], questions = [], answers = []\<rparr>))) \<noteq> 1"
  by (simp add: startup_def get_db_def preload_questions_def commit_def query_Question_delete_def
      SessionLocal_def add_def new_questions_def next_id_simps commits_def)

section \<open>The results view\<close>

text \<open>
  Claim C1, at an input where the code departs from it. The seed routine has run on an empty
  database; a submission by Alice with the field \<^verbatim>\<open>question_99\<close> is accepted and stores
  an answer whose \<^verbatim>\<open>question_id\<close> is the key of no question. The next request to
  \<^verbatim>\<open>POST /results\<close> with the code 072823 does not return the results view: the answer's
  question is \<^verbatim>\<open>None\<close>, and reading its text raises \<^verbatim>\<open>AttributeError\<close>.
\<close>

theorem view_results_orphan_answer_raises:
  "app (POST_submit [(''name'', ''Alice''), (''question_99'', ''foo'')])
       (fst (snd (startup \<lparr>users = [], questions = [], answers = []\<rparr>)))
     = (Inr (TemplateResponse ''thankyou.html'' [(''name'', Str ''Alice'')]),
        (fst (snd (startup \<lparr>users = [], questions = [], answers = []\<rparr>)))
          \<lparr>users := [\<lparr>User_id = 1, User_name = ''Alice''\<rparr>],
           answers := [\<lparr>Answer_id = 1, Answer_answer_text = ''foo'', Answer_user_id = 1,
                        Answer_question_id = 99\<rparr>]\<rparr>,
        [Select ''users'', Insert ''users'', Commit, Select ''users'', Insert ''answers'', Commit]) \<and>
   app (POST_results ''072823'')
       ((fst (snd (startup \<lparr>users = [], questions = [], answers = []\<rparr>)))
          \<lparr>users := [\<lparr>User_id = 1, User_name = ''Alice''\<rparr>],
           answers := [\<lparr>Answer_id = 1, Answer_answer_text = ''foo'', Answer_user_id = 1,
                        Answer_question_id = 99\<rparr>]\<rparr>)
     = (Inl AttributeError,
        (fst (snd (startup \<lparr>users = [], questions = [], answers = []\<rparr>)))
          \<lparr>users := [\<lparr>User_id = 1, User_name = ''Alice''\<rparr>],
           answers := [\<lparr>Answer_id = 1, Answer_answer_text = ''foo'', Answer_user_id = 1,
                        Answer_question_id = 99\<rparr>]\<rparr>,
        [Select ''users'', Select ''answers'', Select ''questions''])"
proof -
  have seeded: "fst (snd (startup \<lparr>users = [], questions = [], answers = []\<rparr>)) =
      \<lparr>users = [],
       questions = map (\<lambda>(i, t). \<lparr>Question_id = i, Question_text = t\<rparr>)
            (zip [1, 2, 3, 4, 5, 6, 7, 8, 9, 10] new_questions),
       answers = []\<rparr>"
    by (simp add: startup_def get_db_def preload_questions_def commit_def query_Question_delete_def
      SessionLocal_def add_def new_questions_def next_id_simps)
  show ?thesis
    unfolding seeded
    by (simp add: handler_defs qid_of_key_simps new_questions_def)
qed

section \<open>Submitting answers\<close>

text \<open>
  Claim C2. Take a request to \<^verbatim>\<open>POST /submit\<close> whose form has a non-empty name. When the
  request succeeds, its response is the thank-you page and the answers table has grown by
  exactly one row per field whose key starts with \<^verbatim>\<open>question_\<close>, in the order of the
  fields: the row has the id of the user of that name, the question id parsed from the key
  and the value of the field as its text, whatever the value is, the empty string included.
  The request does succeed when the id of every such key parses and fits the 64-bit column.
\<close>

theorem submit_inserts_answers:
  assumes "form_get form ''name'' = Some n" and "n \<noteq> []"
  shows "(list_all (\<lambda>(k, v). \<exists>q. qid_of_key k = Inr q \<and> sqlite_integer q) (question_fields form) \<longrightarrow>
      (\<exists>d1 tr1. app (POST_submit form) d =
         (Inr (TemplateResponse ''thankyou.html'' [(''name'', Str n)]), d1, tr1))) \<and>
    (app (POST_submit form) d = (Inr resp, d', tr) \<longrightarrow>
      (\<exists>u rows.
         resp = TemplateResponse ''thankyou.html'' [(''name'', Str n)] \<and>
         find (\<lambda>u. User_name u = n) (users d') = Some u \<and>
         answers d' = answers d @ rows \<and>
         length rows = length (question_fields form) \<and>
         map (\<lambda>a. (Answer_user_id a, Inr (Answer_question_id a), Answer_answer_text a)) rows =
           map (\<lambda>(k, v). (User_id u, qid_of_key k, v)) (question_fields form)))"
proof (intro conjI impI)
  assume "list_all (\<lambda>(k, v). \<exists>q. qid_of_key k = Inr q \<and> sqlite_integer q) (question_fields form)"
  then have ok: "list_all (\<lambda>(k, v). \<exists>q. qid_of_key k = Inr q) (question_fields form)"
    and fit: "list_all (\<lambda>(k, v). sqlite_integer (projr (qid_of_key k))) (question_fields form)"
    by (simp_all add: fields_ok_split)
  from submit_ok [OF assms ok fit, of d]
  show "\<exists>d1 tr1. app (POST_submit form) d =
         (Inr (TemplateResponse ''thankyou.html'' [(''name'', Str n)]), d1, tr1)"
    by blast
next
  assume accepted: "app (POST_submit form) d = (Inr resp, d', tr)"
  have ok: "list_all (\<lambda>(k, v). \<exists>q. qid_of_key k = Inr q) (question_fields form)"
    and fit: "list_all (\<lambda>(k, v). sqlite_integer (projr (qid_of_key k))) (question_fields form)"
    using submit_accepted_parses [OF assms accepted] by simp_all
  obtain u rows tr0 where run: "app (POST_submit form) d =
       (Inr (TemplateResponse ''thankyou.html'' [(''name'', Str n)]),
        d\<lparr>users := users d @ (if find (\<lambda>u. User_name u = n) (users d) = None
                               then [new_User_row n d] else []),
          answers := answers d @ rows\<rparr>, tr0)"
    and u: "find (\<lambda>u. User_name u = n)
       (users d @ (if find (\<lambda>u. User_name u = n) (users d) = None
                   then [new_User_row n d] else [])) = Some u"
    and m: "map (\<lambda>a. (Answer_user_id a, Inr (Answer_question_id a), Answer_answer_text a)) rows =
       map (\<lambda>(k, v). (User_id u, qid_of_key k, v)) (question_fields form)"
    using submit_ok [OF assms ok fit, of d] by blast
  have resp: "resp = TemplateResponse ''thankyou.html'' [(''name'', Str n)]"
    and d': "d' = d\<lparr>users := users d @ (if find (\<lambda>u. User_name u = n) (users d) = None
                               then [new_User_row n d] else []),
          answers := answers d @ rows\<rparr>"
    using run accepted by simp_all
  have len: "length rows = length (question_fields form)"
    using arg_cong [OF m, of length] by simp
  have "find (\<lambda>u. User_name u = n) (users d') = Some u" and "answers d' = answers d @ rows"
    using u unfolding d' by simp_all
  with resp len m
  show "\<exists>u rows.
         resp = TemplateResponse ''thankyou.html'' [(''name'', Str n)] \<and>
         find (\<lambda>u. User_name u = n) (users d') = Some u \<and>
         answers d' = answers d @ rows \<and>
         length rows = length (question_fields form) \<and>
         map (\<lambda>a. (Answer_user_id a, Inr (Answer_question_id a), Answer_answer_text a)) rows =
           map (\<lambda>(k, v). (User_id u, qid_of_key k, v)) (question_fields form)"
    by blast
qed

theorem submit_inserts_answers_witness:
  "form_get [(''name'', ''Alice''), (''question_1'', ''foo''), (''question_2'', [])] ''name''
     = Some ''Alice'' \<and>
   ''Alice'' \<noteq> [] \<and>
   list_all (\<lambda>(k, v). \<exists>q. qid_of_key k = Inr q \<and> sqlite_integer q)
     (question_fields [(''name'', ''Alice''), (''question_1'', ''foo''), (''question_2'', [])]) \<and>
   app (POST_submit [(''name'', ''Alice''), (''question_1'', ''foo''), (''question_2'', [])])
       \<lparr>users = [], questions = [], answers = []\<rparr> =
     (Inr (TemplateResponse ''thankyou.html'' [(''name'', Str ''Alice'')]),
      \<lparr>users = [\<lparr>User_id = 1, User_name = ''Alice''\<rparr>], questions = [],
       answers = [\<lparr>Answer_id = 1, Answer_answer_text = ''foo'', Answer_user_id = 1,
                   Answer_question_id = 1\<rparr>,
                  \<lparr>Answer_id = 2, Answer_answer_text = [], Answer_user_id = 1,
                   Answer_question_id = 2\<rparr>]\<rparr>,
      [Select ''users'', Insert ''users'', Commit, Select ''users'',
       Insert ''answers'', Insert ''answers'', Commit]) \<and>
   (\<exists>u rows.
     find (\<lambda>u. User_name u = ''Alice'') [\<lparr>User_id = 1, User_name = ''Alice''\<rparr>] = Some u \<and>
     [\<lparr>Answer_id = 1, Answer_answer_text = ''foo'', Answer_user_id = 1, Answer_question_id = 1\<rparr>,
      \<lparr>Answer_id = 2, Answer_answer_text = [], Answer_user_id = 1, Answer_question_id = 2\<rparr>]
       = rows \<and>
     length rows = 2 \<and>
     map (\<lambda>a. (Answer_user_id a, Inr (Answer_question_id a), Answer_answer_text a)) rows =
       [(User_id u, Inr 1, ''foo''), (User_id u, Inr 2, [])])"
proof -
  let ?form = "[(''name'', ''Alice''), (''question_1'', ''foo''), (''question_2'', [])]"
  let ?d = "\<lparr>users = [], questions = [], answers = []\<rparr>"
  let ?d' = "\<lparr>users = [\<lparr>User_id = 1, User_name = ''Alice''\<rparr>], questions = [],
       answers = [\<lparr>Answer_id = 1, Answer_answer_text = ''foo'', Answer_user_id = 1,
                   Answer_question_id = 1\<rparr>,
                  \<lparr>Answer_id = 2, Answer_answer_text = [], Answer_user_id = 1,
                   Answer_question_id = 2\<rparr>]\<rparr>"
  have fields: "question_fields ?form = [(''question_1'', ''foo''), (''question_2'', [])]"
    by (simp add: question_fields_def startswith_def)
  have h1: "form_get ?form ''name'' = Some ''Alice''"
    by (simp add: form_get_def)
  have h2: "''Alice'' \<noteq> []" by simp
  have h3: "list_all (\<lambda>(k, v). \<exists>q. qid_of_key k = Inr q \<and> sqlite_integer q) (question_fields ?form)"
    by (simp add: fields qid_of_key_simps sqlite_integer_simps)
  have h4: "app (POST_submit ?form) ?d =
     (Inr (TemplateResponse ''thankyou.html'' [(''name'', Str ''Alice'')]), ?d',
      [Select ''users'', Insert ''users'', Commit, Select ''users'',
       Insert ''answers'', Insert ''answers'', Commit])"
    by (simp add: handler_defs qid_of_key_simps)
  from submit_inserts_answers [OF h1 h2, of ?d "TemplateResponse ''thankyou.html'' [(''name'', Str ''Alice'')]" ?d'
      "[Select ''users'', Insert ''users'', Commit, Select ''users'',
        Insert ''answers'', Insert ''answers'', Commit]"] h4
  have "\<exists>u rows.
     find (\<lambda>u. User_name u = ''Alice'') (users ?d') = Some u \<and>
     answers ?d' = answers ?d @ rows \<and>
     length rows = length (question_fields ?form) \<and>
     map (\<lambda>a. (Answer_user_id a, Inr (Answer_question_id a), Answer_answer_text a)) rows =
       map (\<lambda>(k, v). (User_id u, qid_of_key k, v)) (question_fields ?form)"
    by blast
  then have "\<exists>u rows.
     find (\<lambda>u. User_name u = ''Alice'') [\<lparr>User_id = 1, User_name = ''Alice''\<rparr>] = Some u \<and>
     [\<lparr>Answer_id = 1, Answer_answer_text = ''foo'', Answer_user_id = 1, Answer_question_id = 1\<rparr>,
      \<lparr>Answer_id = 2, Answer_answer_text = [], Answer_user_id = 1, Answer_question_id = 2\<rparr>]
       = rows \<and>
     length rows = 2 \<and>
     map (\<lambda>a. (Answer_user_id a, Inr (Answer_question_id a), Answer_answer_text a)) rows =
       [(User_id u, Inr 1, ''foo''), (User_id u, Inr 2, [])]"
    by (simp add: fields qid_of_key_simps)
  with h1 h3 h4 show ?thesis by simp
qed

section \<open>Asking for the questions twice\<close>

text \<open>
  Claim C4, for the names that reach the handler. On a database whose user names are
  unique, two requests to \<^verbatim>\<open>POST /questions\<close> with the same non-empty name, one after the
  other, both succeed; the first inserts the user when the name is new and nothing
  otherwise, the second finds the user and only reads; after them exactly one user has
  that name.
\<close>

theorem questions_twice_one_user:
  assumes "users_unique d" and "n \<noteq> []"
  shows "\<exists>r1 d1 t1 r2 t2.
     app (POST_questions n) d = (Inr r1, d1, t1) \<and>
     app (POST_questions n) d1 = (Inr r2, d1, t2) \<and>
     users d1 = (if find (\<lambda>u. User_name u = n) (users d) = None
                 then users d @ [new_User_row n d] else users d) \<and>
     t2 = [Select ''users'', Select ''questions''] \<and>
     length (filter (\<lambda>u. User_name u = n) (users d1)) = 1"
proof -
  have route: "app (POST_questions n) d0 = get_db (get_questions n) d0" for d0
    using assms(2) by simp
  show ?thesis
  proof (cases "find (\<lambda>u. User_name u = n) (users d)")
    case None
    let ?d1 = "d\<lparr>users := users d @ [new_User_row n d]\<rparr>"
    have again: "find (\<lambda>u. User_name u = n) (users ?d1) = Some (new_User_row n d)"
      using find_append_new [OF None, of "new_User_row n d"] by (simp add: new_User_row_def)
    have one: "length (filter (\<lambda>u. User_name u = n) (users ?d1)) = 1"
      using filter_name_absent [OF None] by (simp add: new_User_row_def)
    show ?thesis
      unfolding route
      using get_questions_new [OF None] get_questions_found [OF again] None one
      by simp
  next
    case (Some u)
    have one: "length (filter (\<lambda>u. User_name u = n) (users d)) = 1"
      using assms(1) Some by (simp add: users_unique_def filter_name_distinct)
    show ?thesis
      unfolding route
      using get_questions_found [OF Some] Some one by simp
  qed
qed

theorem questions_twice_one_user_witness:
  "users_unique \<lparr>users = [\<lparr>User_id = 1, User_name = ''Bob''\<rparr>], questions = [], answers = []\<rparr> \<and>
   ''Alice'' \<noteq> [] \<and>
   (\<exists>r1 d1 t1 r2 t2.
     app (POST_questions ''Alice'')
        \<lparr>users = [\<lparr>User_id = 1, User_name = ''Bob''\<rparr>], questions = [], answers = []\<rparr>
       = (Inr r1, d1, t1) \<and>
     app (POST_questions ''Alice'') d1 = (Inr r2, d1, t2) \<and>
     users d1 = [\<lparr>User_id = 1, User_name = ''Bob''\<rparr>, \<lparr>User_id = 2, User_name = ''Alice''\<rparr>] \<and>
     t2 = [Select ''users'', Select ''questions''] \<and>
     length (filter (\<lambda>u. User_name u = ''Alice'') (users d1)) = 1)"
proof -
  have h: "users_unique \<lparr>users = [\<lparr>User_id = 1, User_name = ''Bob''\<rparr>], questions = [], answers = []\<rparr>"
    by (simp add: users_unique_def)
  have ne: "''Alice'' \<noteq> []" by simp
  show ?thesis
    using h questions_twice_one_user [OF h ne]
    by (simp add: new_User_row_def next_id_simps)
qed

text \<open>
  Claim C4 as the specification words it covers every name. With the empty name both
  requests are answered 422 before the handler runs, and on the empty database no user
  with that name exists afterwards.
\<close>

theorem questions_twice_empty_name_counterexample:
  "users_unique \<lparr>users = [], questions = [], answers = []\<rparr> \<and>
   app (POST_questions []) \<lparr>users = [], questions = [], answers = []\<rparr>
     = (Inr (JSONResponse 422), \<lparr>users = [], questions = [], answers = []\<rparr>, []) \<and>
   length (filter (\<lambda>u. User_name u = [])
     (users (serve [POST_questions [], POST_questions []]
               \<lparr>users = [], questions = [], answers = []\<rparr>))) = 0"
  by (simp add: users_unique_def)

section \<open>Submitting without a name\<close>

text \<open>
  Claim C5. A request to \<^verbatim>\<open>POST /submit\<close> whose form has no \<^verbatim>\<open>name\<close> field is answered
  with a redirect to \<^verbatim>\<open>/\<close> with status 302; the three tables are as they were, and the
  session did nothing at all.
\<close>

theorem submit_without_name_redirects:
  "form_get form ''name'' = None \<Longrightarrow>
   app (POST_submit form) d = (Inr (RedirectResponse ''/'' 302), d, [])"
  by (simp add: get_db_def submit_answers_def SessionLocal_def)

theorem submit_without_name_redirects_witness:
  "form_get [(''question_1'', ''foo'')] ''name'' = None \<and>
   app (POST_submit [(''question_1'', ''foo'')])
       \<lparr>users = [\<lparr>User_id = 1, User_name = ''Alice''\<rparr>], questions = [], answers = []\<rparr>
     = (Inr (RedirectResponse ''/'' 302),
        \<lparr>users = [\<lparr>User_id = 1, User_name = ''Alice''\<rparr>], questions = [], answers = []\<rparr>, [])"
proof -
  have h: "form_get [(''question_1'', ''foo'')] ''name'' = None"
    by (simp add: form_get_def)
  show ?thesis
    using h submit_without_name_redirects [OF h] by simp
qed

section \<open>The round trip of an answer\<close>

text \<open>
  Claim C6. A submission under the name n is accepted; one of its question fields has the
  value v and a key whose id is the key of a question. After it, and after any further
  requests, a request to \<^verbatim>\<open>POST /results\<close> with the right code that returns the results
  view has an entry for the name n in which the text of that question is paired with
  exactly v.
\<close>

theorem answer_round_trip:
  assumes "form_get form ''name'' = Some n" and "n \<noteq> []"
    and "(k, v) \<in> set form" and "startswith k ''question_''" and "qid_of_key k = Inr q"
    and "find (\<lambda>qu. Question_id qu = q) (questions d) = Some qu"
    and "app (POST_submit form) d = (Inr resp, d', tr)"
    and "app (POST_results ''072823'') (serve rs d')
           = (Inr (TemplateResponse page [(key, Results data)]), d'', tr')"
  shows "\<exists>entries. (n, entries) \<in> set data \<and> (Question_text qu, v) \<in> set entries"
proof -
  have ok: "list_all (\<lambda>(k, v). \<exists>q. qid_of_key k = Inr q) (question_fields form)"
    and fit: "list_all (\<lambda>(k, v). sqlite_integer (projr (qid_of_key k))) (question_fields form)"
    using submit_accepted_parses [OF assms(1,2,7)] by simp_all
  obtain u rows tr0 where run: "app (POST_submit form) d =
       (Inr (TemplateResponse ''thankyou.html'' [(''name'', Str n)]),
        d\<lparr>users := users d @ (if find (\<lambda>u. User_name u = n) (users d) = None
                               then [new_User_row n d] else []),
          answers := answers d @ rows\<rparr>, tr0)"
    and u: "find (\<lambda>u. User_name u = n)
       (users d @ (if find (\<lambda>u. User_name u = n) (users d) = None
                   then [new_User_row n d] else [])) = Some u"
    and m: "map (\<lambda>a. (Answer_user_id a, Inr (Answer_question_id a), Answer_answer_text a)) rows =
       map (\<lambda>(k, v). (User_id u, qid_of_key k, v)) (question_fields form)"
    using submit_ok [OF assms(1,2) ok fit, of d] by blast
  have d': "d' = d\<lparr>users := users d @ (if find (\<lambda>u. User_name u = n) (users d) = None
                               then [new_User_row n d] else []),
          answers := answers d @ rows\<rparr>"
    using run assms(7) by simp
  obtain us2 rows2 where later:
    "serve rs d' = d'\<lparr>users := users d' @ us2, answers := answers d' @ rows2\<rparr>"
    using serve_keeps [of rs d'] by blast
  have "find (\<lambda>u. User_name u = n) (users d') = Some u"
    using u unfolding d' by simp
  moreover have "users (serve rs d') = users d' @ us2"
    by (simp add: later)
  ultimately have "find (\<lambda>u. User_name u = n) (users (serve rs d')) = Some u"
    by (simp add: find_append_old)
  then have uin: "u \<in> set (users (serve rs d'))" and uname: "User_name u = n"
    using find_Some_mem by fastforce+
  have "(k, v) \<in> set (question_fields form)"
    using assms(3,4) by (simp add: question_fields_def)
  then have "(User_id u, Inr q, v)
      \<in> set (map (\<lambda>(k, v). (User_id u, qid_of_key k, v)) (question_fields form))"
    using assms(5) by force
  then have "(User_id u, Inr q :: error + int, v)
      \<in> set (map (\<lambda>a. (Answer_user_id a, Inr (Answer_question_id a), Answer_answer_text a)) rows)"
    by (simp only: m)
  then obtain a where a: "a \<in> set rows" "Answer_user_id a = User_id u"
    "Answer_question_id a = q" "Answer_answer_text a = v"
    by auto
  have "a \<in> set (answers d')"
    using a(1) unfolding d' by simp
  moreover have "answers (serve rs d') = answers d' @ rows2"
    by (simp add: later)
  ultimately have ain: "a \<in> set (answers (serve rs d'))"
    by simp
  have "questions (serve rs d') = questions d'"
    by (simp add: later)
  also have "\<dots> = questions d"
    unfolding d' by simp
  finally have qd': "find (\<lambda>qu. Question_id qu = Answer_question_id a) (questions (serve rs d')) = Some qu"
    using assms(6) a(3) by simp
  obtain s2 where loop:
    "results_loop (users (serve rs d')) (SessionLocal (serve rs d')\<lparr>trace := [Select ''users'']\<rparr>)
      = (Inr data, s2)"
    using assms(8)
    by (auto simp: get_db_def view_results_def query_User_all_def SessionLocal_def
        split: prod.splits sum.splits)
  from results_loop_mem [OF loop uin _ a(2)] ain qd'
  obtain entries where "(User_name u, entries) \<in> set data"
    "(Question_text qu, Answer_answer_text a) \<in> set entries"
    by (auto simp: SessionLocal_def)
  with uname a(4) show ?thesis by auto
qed

theorem answer_round_trip_witness:
  "form_get [(''name'', ''Alice''), (''question_1'', '' a <b> '')] ''name'' = Some ''Alice'' \<and>
   ''Alice'' \<noteq> [] \<and>
   (''question_1'', '' a <b> '') \<in> set [(''name'', ''Alice''), (''question_1'', '' a <b> '')] \<and>
   startswith ''question_1'' ''question_'' \<and>
   qid_of_key ''question_1'' = Inr 1 \<and>
   find (\<lambda>qu. Question_id qu = 1)
     (questions \<lparr>users = [],
        questions = [\<lparr>Question_id = 1, Question_text = ''What is your email address?''\<rparr>],
        answers = []\<rparr>)
     = Some \<lparr>Question_id = 1, Question_text = ''What is your email address?''\<rparr> \<and>
   app (POST_submit [(''name'', ''Alice''), (''question_1'', '' a <b> '')])
     \<lparr>users = [],
      questions = [\<lparr>Question_id = 1, Question_text = ''What is your email address?''\<rparr>],
      answers = []\<rparr>
     = (Inr (TemplateResponse ''thankyou.html'' [(''name'', Str ''Alice'')]),
        \<lparr>users = [\<lparr>User_id = 1, User_name = ''Alice''\<rparr>],
         questions = [\<lparr>Question_id = 1, Question_text = ''What is your email address?''\<rparr>],
         answers = [\<lparr>Answer_id = 1, Answer_answer_text = '' a <b> '', Answer_user_id = 1,
                     Answer_question_id = 1\<rparr>]\<rparr>,
        [Select ''users'', Insert ''users'', Commit, Select ''users'', Insert ''answers'', Commit]) \<and>
   app (POST_results ''072823'')
     (serve [POST_questions ''Bob'']
       \<lparr>users = [\<lparr>User_id = 1, User_name = ''Alice''\<rparr>],
        questions = [\<lparr>Question_id = 1, Question_text = ''What is your email address?''\<rparr>],
        answers = [\<lparr>Answer_id = 1, Answer_answer_text = '' a <b> '', Answer_user_id = 1,
                    Answer_question_id = 1\<rparr>]\<rparr>)
     = (Inr (TemplateResponse ''results.html''
          [(''results'',
            Results [(''Alice'', [(''What is your email address?'', '' a <b> '')]), (''Bob'', [])])]),
        \<lparr>users = [\<lparr>User_id = 1, User_name = ''Alice''\<rparr>, \<lparr>User_id = 2, User_name = ''Bob''\<rparr>],
         questions = [\<lparr>Question_id = 1, Question_text = ''What is your email address?''\<rparr>],
         answers = [\<lparr>Answer_id = 1, Answer_answer_text = '' a <b> '', Answer_user_id = 1,
                     Answer_question_id = 1\<rparr>]\<rparr>,
        [Select ''users'', Select ''answers'', Select ''questions'', Select ''answers'']) \<and>
   (\<exists>entries.
      (''Alice'', entries)
        \<in> set [(''Alice'', [(''What is your email address?'', '' a <b> '')]), (''Bob'', [])] \<and>
      (Question_text \<lparr>Question_id = 1, Question_text = ''What is your email address?''\<rparr>, '' a <b> '')
        \<in> set entries)"
proof -
  let ?form = "[(''name'', ''Alice''), (''question_1'', '' a <b> '')]"
  let ?q = "\<lparr>Question_id = 1, Question_text = ''What is your email address?''\<rparr>"
  let ?d = "\<lparr>users = [], questions = [?q], answers = []\<rparr>"
  let ?a = "\<lparr>Answer_id = 1, Answer_answer_text = '' a <b> '', Answer_user_id = 1,
                 Answer_question_id = 1\<rparr>"
  let ?d' = "\<lparr>users = [\<lparr>User_id = 1, User_name = ''Alice''\<rparr>], questions = [?q], answers = [?a]\<rparr>"
  let ?d'' = "\<lparr>users = [\<lparr>User_id = 1, User_name = ''Alice''\<rparr>, \<lparr>User_id = 2, User_name = ''Bob''\<rparr>],
     questions = [?q], answers = [?a]\<rparr>"
  have h1: "form_get ?form ''name'' = Some ''Alice''" by (simp add: form_get_def)
  have h2: "''Alice'' \<noteq> []" by simp
  have h3: "(''question_1'', '' a <b> '') \<in> set ?form" by simp
  have h4: "startswith ''question_1'' ''question_''" by (simp add: startswith_def)
  have h5: "qid_of_key ''question_1'' = Inr 1" by (simp add: qid_of_key_simps)
  have h6: "find (\<lambda>qu. Question_id qu = 1) (questions ?d) = Some ?q" by simp
  have h7: "app (POST_submit ?form) ?d
     = (Inr (TemplateResponse ''thankyou.html'' [(''name'', Str ''Alice'')]), ?d',
        [Select ''users'', Insert ''users'', Commit, Select ''users'', Insert ''answers'', Commit])"
    by (simp add: handler_defs qid_of_key_simps)
  have later: "serve [POST_questions ''Bob''] ?d' = ?d''"
    by (simp add: handler_defs)
  have h8: "app (POST_results ''072823'') (serve [POST_questions ''Bob''] ?d')
     = (Inr (TemplateResponse ''results.html''
          [(''results'',
            Results [(''Alice'', [(''What is your email address?'', '' a <b> '')]), (''Bob'', [])])]),
        ?d'', [Select ''users'', Select ''answers'', Select ''questions'', Select ''answers''])"
    unfolding later by (simp add: handler_defs)
  from answer_round_trip [OF h1 h2 h3 h4 h5 h6 h7 h8]
  have "\<exists>entries.
      (''Alice'', entries)
        \<in> set [(''Alice'', [(''What is your email address?'', '' a <b> '')]), (''Bob'', [])] \<and>
      (Question_text ?q, '' a <b> '') \<in> set entries" .
  with h1 h2 h3 h4 h5 h6 h7 h8 show ?thesis by blast
qed

section \<open>Invariants\<close>



section \<open>Malformed question keys\<close>

text \<open>
  Claim C8. When a submission with a non-empty name has a field whose key starts with
  \<^verbatim>\<open>question_\<close> and whose id does not parse, the handler raises \<^verbatim>\<open>ValueError\<close>;
  no answer of the request is inserted and the questions are untouched. The user of the
  name, when new, has been committed before. The keys \<^verbatim>\<open>question_abc\<close> and
  \<^verbatim>\<open>question_\<close> are two such keys.
\<close>

theorem submit_malformed_key_raises:
  assumes "form_get form ''name'' = Some n" and "n \<noteq> []"
    and "(k, v) \<in> set form" and "startswith k ''question_''" and "qid_of_key k = Inl e"
  shows "\<exists>d' tr.
     app (POST_submit form) d = (Inl ValueError, d', tr) \<and>
     answers d' = answers d \<and>
     questions d' = questions d \<and>
     users d' = users d @ (if find (\<lambda>u. User_name u = n) (users d) = None
                           then [new_User_row n d] else []) \<and>
     Insert ''answers'' \<notin> set tr"
proof -
  have "(k, v) \<in> set (question_fields form)"
    using assms(3,4) by (simp add: question_fields_def)
  from submit_fail [OF assms(1,2) this assms(5), of d]
  show ?thesis by auto
qed

theorem submit_malformed_key_raises_witness:
  "(\<exists>d' tr.
     app (POST_submit [(''name'', ''Alice''), (''question_1'', ''foo''), (''question_abc'', ''bar'')])
       \<lparr>users = [], questions = [], answers = []\<rparr> = (Inl ValueError, d', tr) \<and>
     answers d' = [] \<and> questions d' = [] \<and>
     users d' = [\<lparr>User_id = 1, User_name = ''Alice''\<rparr>] \<and>
     Insert ''answers'' \<notin> set tr) \<and>
   (\<exists>d' tr.
     app (POST_submit [(''name'', ''Alice''), (''question_'', ''bar'')])
       \<lparr>users = [], questions = [], answers = []\<rparr> = (Inl ValueError, d', tr) \<and>
     answers d' = [] \<and> questions d' = [] \<and>
     users d' = [\<lparr>User_id = 1, User_name = ''Alice''\<rparr>] \<and>
     Insert ''answers'' \<notin> set tr)"
proof -
  let ?d = "\<lparr>users = [], questions = [], answers = []\<rparr>"
  let ?f1 = "[(''name'', ''Alice''), (''question_1'', ''foo''), (''question_abc'', ''bar'')]"
  let ?f2 = "[(''name'', ''Alice''), (''question_'', ''bar'')]"
  have n1: "form_get ?f1 ''name'' = Some ''Alice''" and n2: "form_get ?f2 ''name'' = Some ''Alice''"
    by (simp_all add: form_get_def)
  have ne: "''Alice'' \<noteq> []" by simp
  have m1: "(''question_abc'', ''bar'') \<in> set ?f1" and m2: "(''question_'', ''bar'') \<in> set ?f2"
    by simp_all
  have p1: "startswith ''question_abc'' ''question_''" and p2: "startswith ''question_'' ''question_''"
    by (simp_all add: startswith_def)
  have e1: "qid_of_key ''question_abc'' = Inl ValueError"
    and e2: "qid_of_key ''question_'' = Inl ValueError"
    by (simp_all add: qid_of_key_simps)
  show ?thesis
    using submit_malformed_key_raises [OF n1 ne m1 p1 e1, of ?d]
      submit_malformed_key_raises [OF n2 ne m2 p2 e2, of ?d]
    by (simp add: new_User_row_def next_id_simps)
qed

section \<open>The empty name\<close>

text \<open>
  Claim C9, as the code has it. The submit handler answers an empty name as it answers a
  missing one, with the redirect to \<^verbatim>\<open>/\<close> and no session operation. A request to
  \<^verbatim>\<open>POST /questions\<close> with an empty name is answered 422, because the field is required,
  and the handler is not called: no user is created there either. The handler itself has
  no check of its own: called with the empty name on a database without a user of that
  name, it would insert a user whose name is the empty string.
\<close>

theorem empty_name_diverges:
  "(form_get form ''name'' = Some [] \<longrightarrow>
      app (POST_submit form) d = (Inr (RedirectResponse ''/'' 302), d, [])) \<and>
   app (POST_questions []) d = (Inr (JSONResponse 422), d, []) \<and>
   (find (\<lambda>u. User_name u = []) (users d) = None \<longrightarrow>
      get_db (get_questions []) d =
        (Inr (TemplateResponse ''questions.html''
           [(''user'', Str []), (''questions'', Questions (questions d))]),
         d\<lparr>users := users d @ [\<lparr>User_id = next_id (map User_id (users d)), User_name = []\<rparr>]\<rparr>,
         [Select ''users'', Insert ''users'', Commit, Select ''users'', Select ''questions'']))"
proof (intro conjI impI)
  assume "form_get form ''name'' = Some []"
  then show "app (POST_submit form) d = (Inr (RedirectResponse ''/'' 302), d, [])"
    by (simp add: get_db_def submit_answers_def SessionLocal_def)
next
  show "app (POST_questions []) d = (Inr (JSONResponse 422), d, [])"
    by simp
next
  assume "find (\<lambda>u. User_name u = []) (users d) = None"
  from get_questions_new [OF this]
  show "get_db (get_questions []) d =
        (Inr (TemplateResponse ''questions.html''
           [(''user'', Str []), (''questions'', Questions (questions d))]),
         d\<lparr>users := users d @ [\<lparr>User_id = next_id (map User_id (users d)), User_name = []\<rparr>]\<rparr>,
         [Select ''users'', Insert ''users'', Commit, Select ''users'', Select ''questions''])"
    by (simp only: new_User_row_def)
qed

theorem empty_name_diverges_witness:
  "form_get [(''name'', [])] ''name'' = Some [] \<and>
   app (POST_submit [(''name'', [])]) \<lparr>users = [], questions = [], answers = []\<rparr>
     = (Inr (RedirectResponse ''/'' 302), \<lparr>users = [], questions = [], answers = []\<rparr>, []) \<and>
   app (POST_questions []) \<lparr>users = [], questions = [], answers = []\<rparr>
     = (Inr (JSONResponse 422), \<lparr>users = [], questions = [], answers = []\<rparr>, []) \<and>
   find (\<lambda>u. User_name u = []) (users \<lparr>users = [], questions = [], answers = []\<rparr>) = None \<and>
   get_db (get_questions []) \<lparr>users = [], questions = [], answers = []\<rparr> =
     (Inr (TemplateResponse ''questions.html'' [(''user'', Str []), (''questions'', Questions [])]),
      \<lparr>users = [\<lparr>User_id = 1, User_name = []\<rparr>], questions = [], answers = []\<rparr>,
      [Select ''users'', Insert ''users'', Commit, Select ''users'', Select ''questions''])"
proof -
  have h1: "form_get [(''name'', [])] ''name'' = Some []"
    by (simp add: form_get_def)
  have h2: "find (\<lambda>u. User_name u = []) (users \<lparr>users = [], questions = [], answers = []\<rparr>) = None"
    by simp
  show ?thesis
    using h1 h2
      empty_name_diverges [of "[(''name'', [])]" "\<lparr>users = [], questions = [], answers = []\<rparr>"]
    by (simp add: next_id_simps)
qed

text \<open>
  Claim C9 as the specification words it says that \<^verbatim>\<open>POST /questions\<close> with an empty name
  creates a user whose name is the empty string. On the empty database the request leaves
  no such user.
\<close>

theorem empty_name_questions_counterexample:
  "filter (\<lambda>u. User_name u = [])
     (users (fst (snd (app (POST_questions []) \<lparr>users = [], questions = [], answers = []\<rparr>)))) = [] \<and>
   fst (app (POST_questions []) \<lparr>users = [], questions = [], answers = []\<rparr>)
     = Inr (JSONResponse 422)"
  by simp

section \<open>Keys with a further underscore\<close>

text \<open>
  Claim C10, as the code has it. For a key \<^verbatim>\<open>question_a_b\<close> in which a has no underscore
  and parses as an integer i that fits the 64-bit column, the id of the key is i, whatever
  b is: in a submission with a non-empty name whose other question fields parse and fit,
  the handler returns the thank-you page and an answer with question id i and the field's
  value is inserted.
\<close>

theorem submit_extra_segment_ignored:
  assumes "form_get form ''name'' = Some n" and "n \<noteq> []"
    and "(''question_'' @ a @ ''_'' @ b, v) \<in> set form"
    and "CHR ''_'' \<notin> set a" and "py_int a = Inr i" and "sqlite_integer i"
    and "\<forall>(k, w) \<in> set (question_fields form).
           k \<noteq> ''question_'' @ a @ ''_'' @ b \<longrightarrow> (\<exists>q. qid_of_key k = Inr q \<and> sqlite_integer q)"
  shows "qid_of_key (''question_'' @ a @ ''_'' @ b) = Inr i \<and>
    (\<exists>d' tr rows.
       app (POST_submit form) d =
         (Inr (TemplateResponse ''thankyou.html'' [(''name'', Str n)]), d', tr) \<and>
       answers d' = answers d @ rows \<and>
       (\<exists>r \<in> set rows. Answer_question_id r = i \<and> Answer_answer_text r = v))"
proof -
  let ?key = "''question_'' @ a @ ''_'' @ b"
  have qid: "qid_of_key ?key = Inr i"
    using qid_of_key_segment [OF assms(4), of b] assms(5) by simp
  have "list_all (\<lambda>(k, v). \<exists>q. qid_of_key k = Inr q \<and> sqlite_integer q) (question_fields form)"
    unfolding list_all_iff using assms(6,7) qid by fastforce
  then have ok: "list_all (\<lambda>(k, v). \<exists>q. qid_of_key k = Inr q) (question_fields form)"
    and fit: "list_all (\<lambda>(k, v). sqlite_integer (projr (qid_of_key k))) (question_fields form)"
    by (simp_all add: fields_ok_split)
  obtain u rows tr where run: "app (POST_submit form) d =
       (Inr (TemplateResponse ''thankyou.html'' [(''name'', Str n)]),
        d\<lparr>users := users d @ (if find (\<lambda>u. User_name u = n) (users d) = None
                               then [new_User_row n d] else []),
          answers := answers d @ rows\<rparr>, tr)"
    and u: "find (\<lambda>u. User_name u = n)
       (users d @ (if find (\<lambda>u. User_name u = n) (users d) = None
                   then [new_User_row n d] else [])) = Some u"
    and m: "map (\<lambda>a. (Answer_user_id a, Inr (Answer_question_id a), Answer_answer_text a)) rows =
       map (\<lambda>(k, v). (User_id u, qid_of_key k, v)) (question_fields form)"
    using submit_ok [OF assms(1,2) ok fit, of d] by blast
  have "(?key, v) \<in> set (question_fields form)"
    using assms(3) by (simp add: question_fields_def startswith_def)
  then have "(User_id u, Inr i, v)
      \<in> set (map (\<lambda>(k, v). (User_id u, qid_of_key k, v)) (question_fields form))"
    using qid by force
  then have "(User_id u, Inr i :: error + int, v)
      \<in> set (map (\<lambda>a. (Answer_user_id a, Inr (Answer_question_id a), Answer_answer_text a)) rows)"
    by (simp only: m)
  then obtain r where "r \<in> set rows" "Answer_question_id r = i" "Answer_answer_text r = v"
    by auto
  with run qid show ?thesis by auto
qed

theorem submit_extra_segment_ignored_witness:
  "qid_of_key ''question_5_extra'' = Inr 5 \<and>
   py_int ''5_extra'' = Inl ValueError \<and>
    (\<exists>d' tr rows.
       app (POST_submit [(''name'', ''Alice''), (''question_5_extra'', ''bar'')])
          \<lparr>users = [], questions = [], answers = []\<rparr> =
         (Inr (TemplateResponse ''thankyou.html'' [(''name'', Str ''Alice'')]), d', tr) \<and>
       answers d' = rows \<and>
       (\<exists>r \<in> set rows. Answer_question_id r = 5 \<and> Answer_answer_text r = ''bar''))"
proof -
  let ?form = "[(''name'', ''Alice''), (''question_5_extra'', ''bar'')]"
  have h1: "form_get ?form ''name'' = Some ''Alice''"
    by (simp add: form_get_def)
  have h2: "''Alice'' \<noteq> []" by simp
  have h3: "(''question_'' @ ''5'' @ ''_'' @ ''extra'', ''bar'') \<in> set ?form" by simp
  have h4: "CHR ''_'' \<notin> set ''5''" by simp
  have h5: "py_int ''5'' = Inr 5" by (simp add: py_int_simps)
  have h6: "sqlite_integer 5" by (simp add: sqlite_integer_simps)
  have h7: "\<forall>(k, w) \<in> set (question_fields ?form).
           k \<noteq> ''question_'' @ ''5'' @ ''_'' @ ''extra'' \<longrightarrow>
           (\<exists>q. qid_of_key k = Inr q \<and> sqlite_integer q)"
    by (simp add: question_fields_def startswith_def)
  show ?thesis
    using submit_extra_segment_ignored [OF h1 h2 h3 h4 h5 h6 h7,
        of "\<lparr>users = [], questions = [], answers = []\<rparr>"]
    by (simp add: py_int_simps)
qed

text \<open>
  Claim C10 as the specification words it covers every numeric segment. In the key
  \<^verbatim>\<open>question_9223372036854775808_x\<close> the segment parses, as two to the power 63, and the
  handler does crash: the commit raises \<^verbatim>\<open>OverflowError\<close> and no answer is inserted.
\<close>

theorem submit_extra_segment_overflow_counterexample:
  "py_int ''9223372036854775808'' = Inr (2 ^ 63) \<and>
   app (POST_submit [(''name'', ''Alice''), (''question_9223372036854775808_x'', ''bar'')])
       \<lparr>users = [], questions = [], answers = []\<rparr>
     = (Inl OverflowError,
        \<lparr>users = [\<lparr>User_id = 1, User_name = ''Alice''\<rparr>], questions = [], answers = []\<rparr>,
        [Select ''users'', Insert ''users'', Commit, Select ''users''])"
  by (simp add: handler_defs py_int_simps qid_of_key_simps)

end
